theory Spec2Isabelle
  imports Complex_Main "HOL-Library.Sublist"
begin

section \<open>Data model\<close>

text \<open>
  JavaScript strings are modelled as HOL strings: every \<open>char\<close> stands for one
  code unit below 256.  Sizes, HTTP status codes, message ids and \<open>totalPages\<close>
  are \<open>int\<close> or \<open>nat\<close>.  An optional field other than a page is an
  \<open>option\<close>, \<open>None\<close> standing for a field that is not set.
\<close>

text \<open>
  A page is read from a citation, used as the key of a \<open>Map\<close>, tested for
  truthiness and stored in \<open>currentPage\<close> as it is, so it is modelled as the
  JavaScript value it is: \<open>undefined\<close> (the field is absent), \<open>null\<close>, a
  number or a string.  A number is an integer or \<open>Infinity\<close>; fractions and
  \<open>NaN\<close> are left out.  Equality of these values is the key equality of a
  \<open>Map\<close>: \<open>null\<close> and \<open>undefined\<close> differ, and so do the number 3 and
  the string \<open>3\<close>.
\<close>

datatype js_number = Finite int | Infinity

datatype js_value = Undefined | Null | Number js_number | Str string

abbreviation pageNo :: "int \<Rightarrow> js_value" where
  "pageNo n \<equiv> Number (Finite n)"

record js_file =
  file_name :: string
  file_size :: nat
  file_type :: string
  lastModified :: nat

datatype pdf_document = PdfDocument nat

text \<open>
  A citation as the chat view and the citation chip read it: \<open>page\<close>,
  \<open>section\<close>, and the fields written by \<open>extractCitations\<close>
  (\<open>text\<close>, \<open>confidence\<close>, \<open>type\<close>).
\<close>

record citation =
  page :: js_value
  cit_section :: "string option"
  cit_text :: "string option"
  confidence :: "rat option"
  cit_type :: "string option"

record token_usage =
  tu_prompt :: nat
  tu_completion :: nat
  tu_total :: nat

text \<open>\<open>MESSAGE_TYPES\<close> of \<open>utils/constants.js\<close>.\<close>

datatype message_type = USER | ASSISTANT | SYSTEM | ERROR

record chat_message =
  msg_id :: int
  msg_type :: message_type
  content :: string
  msg_citations :: "citation list option"
  timestamp :: string
  tokenUsage :: "token_usage option"

text \<open>The application state held by \<open>AppProvider\<close> (\<open>initialState\<close> gives the fields).\<close>

record app_state =
  pdfFile :: "js_file option"
  pdfDocument :: "pdf_document option"
  currentPage :: js_value
  totalPages :: int
  chatMessages :: "chat_message list"
  isLoading :: bool
  sessionId :: "string option"
  error :: "string option"
  citations :: "citation list"

definition initialState :: app_state where
  "initialState =
     \<lparr> pdfFile = None, pdfDocument = None, currentPage = pageNo 1, totalPages = 0,
       chatMessages = [], isLoading = False, sessionId = None, error = None,
       citations = [] \<rparr>"

text \<open>
  One constructor for each entry of \<open>actionTypes\<close>, carrying the payload, and
  \<open>UNRECOGNIZED\<close> for an action whose type is none of them (the \<open>default\<close>
  branch of the reducer).
\<close>

datatype action =
    SET_PDF_FILE "js_file option"
  | SET_PDF_DOCUMENT "pdf_document option"
  | SET_CURRENT_PAGE js_value
  | SET_TOTAL_PAGES int
  | ADD_CHAT_MESSAGE chat_message
  | SET_LOADING bool
  | SET_SESSION_ID "string option"
  | SET_ERROR "string option"
  | CLEAR_ERROR
  | ADD_CITATION citation
  | CLEAR_CHAT
  | RESET_STATE
  | UNRECOGNIZED string

section \<open>The reducer\<close>

fun appReducer :: "app_state \<Rightarrow> action \<Rightarrow> app_state" where
  "appReducer state (SET_PDF_FILE payload) = state\<lparr>pdfFile := payload\<rparr>"
| "appReducer state (SET_PDF_DOCUMENT payload) = state\<lparr>pdfDocument := payload\<rparr>"
| "appReducer state (SET_CURRENT_PAGE payload) = state\<lparr>currentPage := payload\<rparr>"
| "appReducer state (SET_TOTAL_PAGES payload) = state\<lparr>totalPages := payload\<rparr>"
| "appReducer state (ADD_CHAT_MESSAGE payload) =
     state\<lparr>chatMessages := chatMessages state @ [payload]\<rparr>"
| "appReducer state (SET_LOADING payload) = state\<lparr>isLoading := payload\<rparr>"
| "appReducer state (SET_SESSION_ID payload) = state\<lparr>sessionId := payload\<rparr>"
| "appReducer state (SET_ERROR payload) = state\<lparr>error := payload, isLoading := False\<rparr>"
| "appReducer state CLEAR_ERROR = state\<lparr>error := None\<rparr>"
| "appReducer state (ADD_CITATION payload) =
     state\<lparr>citations := citations state @ [payload]\<rparr>"
| "appReducer state CLEAR_CHAT = state\<lparr>chatMessages := [], citations := [], error := None\<rparr>"
| "appReducer state RESET_STATE = initialState"
| "appReducer state (UNRECOGNIZED t) = state"

section \<open>Strings and truthiness\<close>

text \<open>
  The white space of \<open>String.prototype.trim\<close> and of the regular expression
  class \<open>\s\<close>, among the code units below 256: tab, line feed, vertical tab, form
  feed, carriage return, space and no-break space.
\<close>

definition isWhiteSpace :: "char \<Rightarrow> bool" where
  "isWhiteSpace c \<longleftrightarrow>
     c \<in> set [CHR 0x09, CHR 0x0A, CHR 0x0B, CHR 0x0C, CHR 0x0D, CHR 0x20, CHR 0xA0]"

definition trim :: "string \<Rightarrow> string" where
  "trim s = rev (dropWhile isWhiteSpace (rev (dropWhile isWhiteSpace s)))"

text \<open>A string is truthy when it is not empty; an absent value is falsy.\<close>

definition truthy :: "string option \<Rightarrow> bool" where
  "truthy x = (case x of None \<Rightarrow> False | Some s \<Rightarrow> s \<noteq> [])"

text \<open>\<open>x || d\<close> for an optional string \<open>x\<close> and a string \<open>d\<close>.\<close>

definition or_default :: "string option \<Rightarrow> string \<Rightarrow> string" where
  "or_default x d = (case x of None \<Rightarrow> d | Some s \<Rightarrow> if s = [] then d else s)"

text \<open>
  Truthiness of a value: \<open>undefined\<close>, \<open>null\<close>, the number 0 and the empty
  string are falsy, everything else is truthy.
\<close>

fun truthy_value :: "js_value \<Rightarrow> bool" where
  "truthy_value Undefined = False"
| "truthy_value Null = False"
| "truthy_value (Number (Finite n)) = (n \<noteq> 0)"
| "truthy_value (Number Infinity) = True"
| "truthy_value (Str s) = (s \<noteq> [])"

text \<open>
  The decimal text of a number, as a template literal prints an integer below
  \<open>10^21\<close> (a status code, a size in megabytes).
\<close>

fun toString_nat :: "nat \<Rightarrow> string" where
  "toString_nat n =
     (if n < 10 then [''0123456789'' ! n]
      else toString_nat (n div 10) @ [''0123456789'' ! (n mod 10)])"

declare toString_nat.simps [simp del]

section \<open>Constants (\<open>utils/constants.js\<close>)\<close>

definition MAX_FILE_SIZE :: nat where
  "MAX_FILE_SIZE = 10 * 1024 * 1024"

definition ALLOWED_FILE_TYPES :: "string list" where
  "ALLOWED_FILE_TYPES = [''application/pdf'']"

definition FILE_TOO_LARGE :: string where
  "FILE_TOO_LARGE =
     ''File size must be less than '' @ toString_nat (MAX_FILE_SIZE div (1024 * 1024)) @ ''MB''"

definition INVALID_FILE_TYPE :: string where
  "INVALID_FILE_TYPE = ''Only PDF files are allowed''"

definition UPLOAD_FAILED :: string where
  "UPLOAD_FAILED = ''Failed to upload file. Please try again.''"

definition CHAT_FAILED :: string where
  "CHAT_FAILED = ''Failed to send message. Please try again.''"

definition TYPING_INDICATOR_DELAY :: nat where
  "TYPING_INDICATOR_DELAY = 500"

section \<open>The HTTP Gateway (\<open>services/api\<close>)\<close>

text \<open>A thrown \<open>Error\<close>, with its message.\<close>

datatype js_error = Error (message_of: string)

text \<open>
  What the response interceptor's rejection handler receives: \<open>error.response\<close>
  with \<open>status\<close> and \<open>data\<close> (whose \<open>detail\<close> and \<open>message\<close> it
  reads), whether \<open>error.request\<close> is set, and \<open>error.message\<close>.
\<close>

record response_data =
  detail :: "string option"
  data_message :: "string option"

record error_response =
  status :: nat
  data :: "response_data option"

record axios_error =
  ax_response :: "error_response option"
  ax_request :: bool
  ax_message :: "string option"

text \<open>\<open>data?.detail || data?.message || 'An error occurred'\<close>\<close>

definition server_message :: "response_data option \<Rightarrow> string" where
  "server_message d =
     or_default (case d of None \<Rightarrow> None | Some x \<Rightarrow> detail x)
       (or_default (case d of None \<Rightarrow> None | Some x \<Rightarrow> data_message x)
          ''An error occurred'')"

text \<open>The rejection handler of \<open>api.interceptors.response\<close>: the error it throws.\<close>

definition responseErrorInterceptor :: "axios_error \<Rightarrow> js_error" where
  "responseErrorInterceptor err =
     (case ax_response err of
        Some r \<Rightarrow>
          (let message = server_message (data r) in
           Error
             (if status r = 400 then ''Bad Request: '' @ message
              else if status r = 401 then ''Unauthorized access''
              else if status r = 403 then ''Access forbidden''
              else if status r = 404 then ''Resource not found''
              else if status r = 429 then ''Too many requests. Please try again later.''
              else if status r = 500 then ''Internal server error. Please try again.''
              else ''Server error ('' @ toString_nat (status r) @ ''): '' @ message))
      | None \<Rightarrow>
          if ax_request err
          then Error ''Unable to connect to server. Please check your connection.''
          else Error (or_default (ax_message err) ''An unexpected error occurred''))"

text \<open>
  A call through the \<open>api\<close> instance: the network settles it with the response
  data (\<open>Inr\<close>) or with a rejection (\<open>Inl\<close>), which the interceptor turns into
  the thrown error.
\<close>

definition api_call :: "axios_error + 'a \<Rightarrow> js_error + 'a" where
  "api_call settled =
     (case settled of Inl err \<Rightarrow> Inl (responseErrorInterceptor err) | Inr d \<Rightarrow> Inr d)"

definition handleApiError :: "js_error \<Rightarrow> string \<Rightarrow> string" where
  "handleApiError err defaultMessage =
     (if message_of err \<noteq> [] then message_of err else defaultMessage)"

text \<open>The string a caller shows for a rejected Gateway call.\<close>

definition normalizedMessage :: "axios_error \<Rightarrow> string \<Rightarrow> string" where
  "normalizedMessage err defaultMessage =
     handleApiError (responseErrorInterceptor err) defaultMessage"

record upload_response =
  session_id :: "string option"
  upload_message :: "string option"

record chat_response =
  response :: string
  resp_citations :: "citation list option"
  token_usage :: "token_usage option"

text \<open>The operations of \<open>apiService\<close> that the controllers invoke, with their arguments.\<close>

datatype gateway_op =
    UploadPDF "js_file option"
  | SendMessage string "string option"

section \<open>Effects of the controllers\<close>

text \<open>
  A handler is modelled by the sequence of effects it performs, in program order, given
  how the network settles its Gateway call: the actions it dispatches to the Store, the
  Gateway operations it invokes, the local component state it sets, the timers it waits
  for, and what it does to the browser.  Console output is left out.
\<close>

datatype effect =
    Dispatch action
  | Gateway gateway_op
  | SetMessage string
  | SetIsTyping bool
  | SetIsUploading bool
  | SetUploadProgress nat
  | StartProgressInterval
  | ClearProgressInterval
  | Timeout nat
  | PreventDefault
  | StopPropagation
  | WindowEvent string js_value
  | ScrollPdfViewerIntoView

fun dispatched :: "effect list \<Rightarrow> action list" where
  "dispatched [] = []"
| "dispatched (Dispatch a # es) = a # dispatched es"
| "dispatched (e # es) = dispatched es"

fun gateway_calls :: "effect list \<Rightarrow> gateway_op list" where
  "gateway_calls [] = []"
| "gateway_calls (Gateway g # es) = g # gateway_calls es"
| "gateway_calls (e # es) = gateway_calls es"

text \<open>
  The effects of a handler up to its Gateway call: what it has done while its request is
  in flight.
\<close>

fun until_gateway :: "effect list \<Rightarrow> effect list" where
  "until_gateway [] = []"
| "until_gateway (Gateway g # es) = [Gateway g]"
| "until_gateway (e # es) = e # until_gateway es"

text \<open>The Store after the dispatches of a handler: the reducer applied to each in turn.\<close>

definition store_after :: "app_state \<Rightarrow> effect list \<Rightarrow> app_state" where
  "store_after state es = foldl appReducer state (dispatched es)"

section \<open>The upload controller (\<open>FileUpload\<close>)\<close>

text \<open>The local state of the component, in scope of its handlers.\<close>

record upload_view =
  isDragOver :: bool
  isUploading :: bool
  uploadProgress :: nat

text \<open>\<open>validateFile\<close>: \<open>Inl\<close> is the error thrown, \<open>Inr True\<close> the value returned.\<close>

definition validateFile :: "js_file option \<Rightarrow> js_error + bool" where
  "validateFile file =
     (case file of
        None \<Rightarrow> Inl (Error ''No file selected'')
      | Some f \<Rightarrow>
          if file_size f > MAX_FILE_SIZE then Inl (Error FILE_TOO_LARGE)
          else if file_type f \<notin> set ALLOWED_FILE_TYPES then Inl (Error INVALID_FILE_TYPE)
          else Inr True)"

text \<open>The \<open>catch\<close> block of \<open>handleFileUpload\<close>.\<close>

definition uploadCatch :: "js_error \<Rightarrow> effect list" where
  "uploadCatch err =
     [Dispatch (SET_ERROR (Some (handleApiError err UPLOAD_FAILED))),
      SetIsUploading False, SetUploadProgress 0]"

text \<open>
  \<open>handleFileUpload\<close>, called with the Store's state and the component's local state
  as they are at the call (it reads neither), the file, and the way the network settles
  the upload.  The ticks of the simulated progress only set \<open>uploadProgress\<close> and
  are not modelled.
\<close>

definition handleFileUpload ::
  "app_state \<Rightarrow> upload_view \<Rightarrow> js_file option \<Rightarrow> axios_error + upload_response \<Rightarrow> effect list"
where
  "handleFileUpload state view file settled =
     (case validateFile file of
        Inl err \<Rightarrow> uploadCatch err
      | Inr ok \<Rightarrow>
          [SetIsUploading True, SetUploadProgress 0, Dispatch CLEAR_ERROR,
           Dispatch (SET_LOADING True), StartProgressInterval, Gateway (UploadPDF file)]
          @ (case api_call settled of
               Inl err \<Rightarrow> uploadCatch err
             | Inr resp \<Rightarrow>
                 [ClearProgressInterval, SetUploadProgress 100,
                  Dispatch (SET_PDF_FILE file), Dispatch (SET_SESSION_ID (session_id resp)),
                  Timeout 500, Dispatch (SET_LOADING False), SetIsUploading False,
                  SetUploadProgress 0]))"

section \<open>Citation extraction (\<open>ChatInterface\<close>)\<close>

definition isDigit :: "char \<Rightarrow> bool" where
  "isDigit c \<longleftrightarrow> c \<in> set ''0123456789''"

text \<open>The value of a decimal digit: its place in \<open>0123456789\<close>.\<close>

definition digitValue :: "char \<Rightarrow> nat" where
  "digitValue c = length (takeWhile (\<lambda>d. d \<noteq> c) ''0123456789'')"

text \<open>The integer that a run of decimal digits denotes.\<close>

definition decimalValue :: "string \<Rightarrow> nat" where
  "decimalValue ds = foldl (\<lambda>acc c. 10 * acc + digitValue c) 0 ds"

text \<open>The number of binary digits of a natural number.\<close>

fun bitLength :: "nat \<Rightarrow> nat" where
  "bitLength n = (if n = 0 then 0 else Suc (bitLength (n div 2)))"

declare bitLength.simps [simp del]

text \<open>
  The Number for a natural number: the nearest double, ties going to the even
  significand.  Up to \<open>2^53\<close> that is the number itself; above, the number is cut to
  its 53 leading binary digits \<open>q\<close>, rounded by the rest \<open>r\<close>, and a result of
  \<open>2^1024\<close> or more is \<open>Infinity\<close>.
\<close>

definition toNumber :: "nat \<Rightarrow> js_number" where
  "toNumber n =
     (if n \<le> 2 ^ 53 then Finite (int n)
      else
        (let e = bitLength n - 53;
             q = n div 2 ^ e;
             r = n mod 2 ^ e;
             rounded = (if 2 * r > 2 ^ e \<or> (2 * r = 2 ^ e \<and> odd q) then q + 1 else q) * 2 ^ e
         in if rounded \<ge> 2 ^ 1024 then Infinity else Finite (int rounded)))"

text \<open>
  \<open>parseInt\<close> on a run of decimal digits (all the capture group \<open>(\d+)\<close> can
  hold): the Number for its decimal value, as the engines compute it (ECMAScript lets an
  implementation approximate a run of more than 20 significant digits).
\<close>

definition parseInt :: "string \<Rightarrow> js_number" where
  "parseInt ds = toNumber (decimalValue ds)"

text \<open>
  One attempt of \<open>/\(Page\s+(\d+)\)/gi\<close> at the start of a text: the capture group
  and the text after the match.  White space and digits are disjoint classes and
  neither contains the closing parenthesis, so the greedy runs never have to give
  characters back.
\<close>

fun matchAt :: "string \<Rightarrow> (string \<times> string) option" where
  "matchAt (c0 # c1 # c2 # c3 # c4 # rest) =
     (if c0 = CHR ''('' \<and> (c1 = CHR ''P'' \<or> c1 = CHR ''p'') \<and> (c2 = CHR ''A'' \<or> c2 = CHR ''a'')
          \<and> (c3 = CHR ''G'' \<or> c3 = CHR ''g'') \<and> (c4 = CHR ''E'' \<or> c4 = CHR ''e'')
          \<and> takeWhile isWhiteSpace rest \<noteq> []
          \<and> takeWhile isDigit (dropWhile isWhiteSpace rest) \<noteq> []
      then (case dropWhile isDigit (dropWhile isWhiteSpace rest) of
              [] \<Rightarrow> None
            | c # after \<Rightarrow>
                if c = CHR '')''
                then Some (takeWhile isDigit (dropWhile isWhiteSpace rest), after)
                else None)
      else None)"
| "matchAt s = None"

lemma matchAt_shorter: "matchAt s = Some (ds, after) \<Longrightarrow> length after < length s"
proof (induction s rule: matchAt.induct)
  case (1 c0 c1 c2 c3 c4 rest)
  let ?r = "dropWhile isDigit (dropWhile isWhiteSpace rest)"
  from "1.prems" obtain c where "?r = c # after"
    by (auto split: if_splits list.splits)
  then have "length after < length ?r" by simp
  also have "length ?r \<le> length rest"
    by (meson le_trans length_dropWhile_le)
  finally show ?case by simp
qed simp_all

text \<open>
  The loop \<open>while ((match = citationRegex.exec(text)) !== null)\<close> of a global
  regular expression: the leftmost match from \<open>lastIndex\<close> on, then on from the end
  of that match; the capture groups of the matches, in order.
\<close>

function execAll :: "string \<Rightarrow> string list" where
  "execAll [] = []"
| "execAll (c # cs) =
     (case matchAt (c # cs) of
        Some (ds, after) \<Rightarrow> ds # execAll after
      | None \<Rightarrow> execAll cs)"
  by pat_completeness auto
termination
  by (relation "measure length") (auto dest: matchAt_shorter)

definition pageCitation :: "string \<Rightarrow> citation" where
  "pageCitation ds =
     \<lparr> page = Number (parseInt ds), cit_section = None, cit_text = Some (''Page '' @ ds),
       confidence = Some (9 / 10), cit_type = Some ''page_reference'' \<rparr>"

definition extractCitations :: "string \<Rightarrow> citation list" where
  "extractCitations text = map pageCitation (execAll text)"

section \<open>The pattern \<open>(Page N)\<close> as a property of the text\<close>

text \<open>
  What the specification of citation extraction calls a match, stated on the text and not by
  the matcher: the word \<open>page\<close> in any mix of cases, and a text
  \<open>(\<close>, that word, white space, the digits \<open>ds\<close>, \<open>)\<close>, and
  such a text standing in \<open>s\<close> from index \<open>i\<close> on.
\<close>

fun pageWord :: "string \<Rightarrow> bool" where
  "pageWord [c1, c2, c3, c4] \<longleftrightarrow>
     (c1 = CHR ''P'' \<or> c1 = CHR ''p'') \<and> (c2 = CHR ''A'' \<or> c2 = CHR ''a'')
     \<and> (c3 = CHR ''G'' \<or> c3 = CHR ''g'') \<and> (c4 = CHR ''E'' \<or> c4 = CHR ''e'')"
| "pageWord w \<longleftrightarrow> False"

definition pageReference :: "string \<Rightarrow> string \<Rightarrow> bool" where
  "pageReference ds m \<longleftrightarrow>
     (\<exists>w ws. m = ''('' @ w @ ws @ ds @ '')'' \<and> pageWord w
        \<and> ws \<noteq> [] \<and> (\<forall>c \<in> set ws. isWhiteSpace c)
        \<and> ds \<noteq> [] \<and> (\<forall>c \<in> set ds. isDigit c))"

definition referenceAt :: "string \<Rightarrow> nat \<Rightarrow> string \<Rightarrow> bool" where
  "referenceAt s i ds \<longleftrightarrow>
     (\<exists>pre m post. s = pre @ m @ post \<and> length pre = i \<and> pageReference ds m)"

text \<open>
  The references of a text listed in text order: \<open>ps\<close> holds the indices at which
  a reference stands, all of them, each once and increasing, and \<open>dss\<close> the digits
  of the reference at each.
\<close>

definition lists_references :: "string \<Rightarrow> nat list \<Rightarrow> string list \<Rightarrow> bool" where
  "lists_references s ps dss \<longleftrightarrow>
     length ps = length dss \<and> sorted_wrt (<) ps
     \<and> (\<forall>i ds. referenceAt s i ds \<longrightarrow> i \<in> set ps)
     \<and> (\<forall>k < length ps. referenceAt s (ps ! k) (dss ! k))"

section \<open>The chat controller (\<open>ChatInterface\<close> and \<open>useChat\<close>)\<close>

text \<open>
  The readings of the clock a send takes: \<open>Date.now()\<close> and
  \<open>new Date().toISOString()\<close> when the user message is built, and again when the
  reply or the failure is.
\<close>

record clock =
  now_sent :: int
  iso_sent :: string
  now_settled :: int
  iso_settled :: string

text \<open>The local state of \<open>ChatInterface\<close>, in scope of its handlers.\<close>

record chat_view =
  message :: string
  isTyping :: bool

text \<open>
  \<open>handleSendMessage\<close> of \<open>ChatInterface\<close>.  It returns no value; where the
  guard fails it returns at once.
\<close>

definition handleSendMessage ::
  "app_state \<Rightarrow> chat_view \<Rightarrow> clock \<Rightarrow> axios_error + chat_response \<Rightarrow> effect list"
where
  "handleSendMessage state view clk settled =
     (if trim (message view) = [] \<or> \<not> truthy (sessionId state) \<or> isLoading state then []
      else
        (let userMessage = trim (message view);
             userChatMessage =
               \<lparr> msg_id = now_sent clk, msg_type = USER, content = userMessage,
                 msg_citations = None, timestamp = iso_sent clk, tokenUsage = None \<rparr>
         in [SetMessage [], Dispatch (ADD_CHAT_MESSAGE userChatMessage), Dispatch CLEAR_ERROR,
             SetIsTyping True, Timeout TYPING_INDICATOR_DELAY,
             Gateway (SendMessage userMessage (sessionId state))]
            @ (case api_call settled of
                 Inr resp \<Rightarrow>
                   (let extractedCitations = extractCitations (response resp);
                        aiChatMessage =
                          \<lparr> msg_id = now_settled clk + 1, msg_type = ASSISTANT,
                            content = response resp,
                            msg_citations =
                              Some ((case resp_citations resp of None \<Rightarrow> [] | Some cs \<Rightarrow> cs)
                                    @ extractedCitations),
                            timestamp = iso_settled clk, tokenUsage = token_usage resp \<rparr>
                    in [SetIsTyping False, Dispatch (ADD_CHAT_MESSAGE aiChatMessage)])
               | Inl err \<Rightarrow>
                   (let errorMessage = handleApiError err CHAT_FAILED;
                        errorChatMessage =
                          \<lparr> msg_id = now_settled clk + 1, msg_type = ERROR,
                            content = errorMessage, msg_citations = None,
                            timestamp = iso_settled clk, tokenUsage = None \<rparr>
                    in [SetIsTyping False, Dispatch (ADD_CHAT_MESSAGE errorChatMessage)]))))"

text \<open>What \<open>sendMessage\<close> of \<open>useChat\<close> returns.\<close>

datatype send_result =
    SendFailure string
  | SendSuccess chat_message "citation list option"

text \<open>\<open>sendMessage\<close> of the \<open>useChat\<close> hook: the value returned and the effects.\<close>

definition sendMessage ::
  "app_state \<Rightarrow> string \<Rightarrow> clock \<Rightarrow> axios_error + chat_response \<Rightarrow> send_result \<times> effect list"
where
  "sendMessage state msg clk settled =
     (if trim msg = [] \<or> \<not> truthy (sessionId state) \<or> isLoading state
      then (SendFailure ''Invalid message or session'', [])
      else
        (let userMessage =
               \<lparr> msg_id = now_sent clk, msg_type = USER, content = trim msg,
                 msg_citations = None, timestamp = iso_sent clk, tokenUsage = None \<rparr>;
             started =
               [Dispatch (ADD_CHAT_MESSAGE userMessage), Dispatch CLEAR_ERROR,
                Dispatch (SET_LOADING True), Gateway (SendMessage (trim msg) (sessionId state))]
         in case api_call settled of
              Inr resp \<Rightarrow>
                (let aiMessage =
                       \<lparr> msg_id = now_settled clk + 1, msg_type = ASSISTANT,
                         content = response resp,
                         msg_citations =
                           Some (case resp_citations resp of None \<Rightarrow> [] | Some cs \<Rightarrow> cs),
                         timestamp = iso_settled clk, tokenUsage = token_usage resp \<rparr>
                 in (SendSuccess aiMessage (resp_citations resp),
                     started
                     @ [Dispatch (ADD_CHAT_MESSAGE aiMessage), Dispatch (SET_LOADING False)]
                     @ map (\<lambda>c. Dispatch (ADD_CITATION c))
                         (case resp_citations resp of None \<Rightarrow> [] | Some cs \<Rightarrow> cs)))
            | Inl err \<Rightarrow>
                (let errorMessage = handleApiError err CHAT_FAILED;
                     errorChatMessage =
                       \<lparr> msg_id = now_settled clk + 1, msg_type = ERROR,
                         content = errorMessage, msg_citations = None,
                         timestamp = iso_settled clk, tokenUsage = None \<rparr>
                 in (SendFailure errorMessage,
                     started
                     @ [Dispatch (ADD_CHAT_MESSAGE errorChatMessage),
                        Dispatch (SET_LOADING False)]))))"

section \<open>Rendering the citations of a message (\<open>renderMessage\<close>)\<close>

text \<open>
  A JavaScript \<open>Map\<close> as its entries in insertion order.  \<open>set\<close> on a key that
  is present replaces the value where the entry stands; on a new key it appends.
\<close>

fun map_set :: "('k \<times> 'v) list \<Rightarrow> 'k \<Rightarrow> 'v \<Rightarrow> ('k \<times> 'v) list" where
  "map_set [] k v = [(k, v)]"
| "map_set ((k', v') # m) k v =
     (if k' = k then (k', v) # m else (k', v') # map_set m k v)"

text \<open>\<open>new Map(entries)\<close>: the entries set one after the other.\<close>

definition new_Map :: "('k \<times> 'v) list \<Rightarrow> ('k \<times> 'v) list" where
  "new_Map entries = foldl (\<lambda>m (k, v). map_set m k v) [] entries"

text \<open>\<open>Array.from(new Map(cs.map(c => [c.page, c])).values())\<close>\<close>

definition uniqueCitations :: "citation list \<Rightarrow> citation list" where
  "uniqueCitations cs = map snd (new_Map (map (\<lambda>c. (page c, c)) cs))"

text \<open>
  The \<open>CitationLink\<close> elements \<open>renderMessage\<close> puts under a message, each with
  its \<open>citation\<close> and \<open>index\<close> props.
\<close>

definition renderCitations :: "chat_message \<Rightarrow> (citation \<times> nat) list" where
  "renderCitations msg =
     (case msg_citations msg of
        None \<Rightarrow> []
      | Some cs \<Rightarrow>
          if length cs > 0
          then zip (uniqueCitations cs) [0 ..< length (uniqueCitations cs)]
          else [])"

section \<open>The citation chip (\<open>CitationLink\<close>)\<close>

text \<open>
  The label of a chip, with the template literals kept as they are written:
  \<open>PageLabel v\<close> is \<open>Page \<close> followed by the text of the value \<open>v\<close>,
  \<open>SourceLabel n\<close> is \<open>Source \<close> followed by the number \<open>n\<close>.
\<close>

datatype chip_label = PageLabel js_value | SectionLabel string | SourceLabel nat

definition getCitationText :: "citation \<Rightarrow> nat \<Rightarrow> chip_label" where
  "getCitationText c index =
     (if truthy_value (page c) then PageLabel (page c)
      else case cit_section c of
             None \<Rightarrow> SourceLabel (index + 1)
           | Some sec \<Rightarrow> if sec \<noteq> [] then SectionLabel sec else SourceLabel (index + 1))"

definition handleCitationClick :: "citation \<Rightarrow> effect list" where
  "handleCitationClick c =
     [PreventDefault, StopPropagation]
     @ (if truthy_value (page c)
        then [Dispatch (SET_CURRENT_PAGE (page c)),
              WindowEvent ''navigateToPage'' (page c),
              Timeout 200, ScrollPdfViewerIntoView]
        else [])"

section \<open>Concrete inputs\<close>

text \<open>A state with an upload outstanding and a stale error, used as a concrete input.\<close>

definition busyState :: app_state where
  "busyState = initialState\<lparr>isLoading := True, error := Some ''stale''\<rparr>"

definition pdf2MB :: js_file where
  "pdf2MB = \<lparr> file_name = ''paper.pdf'', file_size = 2 * 1024 * 1024,
              file_type = ''application/pdf'', lastModified = 0 \<rparr>"

definition pdf15MB :: js_file where
  "pdf15MB = \<lparr> file_name = ''big.pdf'', file_size = 15 * 1024 * 1024,
              file_type = ''application/pdf'', lastModified = 0 \<rparr>"

definition textFile :: js_file where
  "textFile = \<lparr> file_name = ''notes.txt'', file_size = 2048,
              file_type = ''text/plain'', lastModified = 0 \<rparr>"

definition uploadingView :: upload_view where
  "uploadingView = \<lparr> isDragOver = False, isUploading = True, uploadProgress = 40 \<rparr>"

definition uploadOk :: "axios_error + upload_response" where
  "uploadOk = Inr \<lparr> session_id = Some ''s-2'', upload_message = Some ''ok'' \<rparr>"

definition chatView :: chat_view where
  "chatView = \<lparr> message = ''What is this about?'', isTyping = False \<rparr>"

definition sampleClock :: clock where
  "sampleClock = \<lparr> now_sent = 1000, iso_sent = ''t0'', now_settled = 2000, iso_settled = ''t1'' \<rparr>"

definition chatOk :: "axios_error + chat_response" where
  "chatOk = Inr \<lparr> response = ''See (Page 5) and (page 12)'', resp_citations = None,
                  token_usage = None \<rparr>"

definition sessionState :: app_state where
  "sessionState = initialState\<lparr>pdfFile := Some pdf2MB, sessionId := Some ''s-1'', totalPages := 10\<rparr>"

definition err404 :: axios_error where
  "err404 = \<lparr> ax_response = Some \<lparr> status = 404, data = None \<rparr>, ax_request = True,
              ax_message = Some ''Request failed with status code 404'' \<rparr>"

definition err400 :: axios_error where
  "err400 = \<lparr> ax_response =
                Some \<lparr> status = 400,
                       data = Some \<lparr> detail = Some ''No file'', data_message = None \<rparr> \<rparr>,
              ax_request = True, ax_message = Some ''Request failed with status code 400'' \<rparr>"

definition err503 :: axios_error where
  "err503 = \<lparr> ax_response =
                Some \<lparr> status = 503,
                       data = Some \<lparr> detail = None, data_message = Some ''Overloaded'' \<rparr> \<rparr>,
              ax_request = True, ax_message = Some ''Request failed with status code 503'' \<rparr>"

definition errTimeout :: axios_error where
  "errTimeout = \<lparr> ax_response = None, ax_request = True,
                  ax_message = Some ''timeout of 30000ms exceeded'' \<rparr>"

definition errSetup :: axios_error where
  "errSetup = \<lparr> ax_response = None, ax_request = False, ax_message = Some ''Invalid URL'' \<rparr>"

definition errBlank :: axios_error where
  "errBlank = \<lparr> ax_response = None, ax_request = False, ax_message = Some [] \<rparr>"

definition citation99 :: citation where
  "citation99 = \<lparr> page = pageNo 99, cit_section = None, cit_text = None, confidence = None,
                  cit_type = None \<rparr>"

definition citationIntro :: citation where
  "citationIntro = \<lparr> page = Undefined, cit_section = Some ''Introduction'', cit_text = None,
                     confidence = None, cit_type = None \<rparr>"

definition cite :: "js_value \<Rightarrow> string option \<Rightarrow> citation" where
  "cite p s = \<lparr> page = p, cit_section = s, cit_text = None, confidence = None, cit_type = None \<rparr>"

definition assistantMessage :: "citation list \<Rightarrow> chat_message" where
  "assistantMessage cs =
     \<lparr> msg_id = 2001, msg_type = ASSISTANT, content = ''answer'', msg_citations = Some cs,
       timestamp = ''t1'', tokenUsage = None \<rparr>"

text \<open>
  A second message typed while the first request is in flight, and the Store as each of
  the two send functions leaves it when its request has been issued.
\<close>

definition secondView :: chat_view where
  "secondView = \<lparr> message = ''And then?'', isTyping = True \<rparr>"

definition laterClock :: clock where
  "laterClock = \<lparr> now_sent = 1200, iso_sent = ''t0b'', now_settled = 2200, iso_settled = ''t1b'' \<rparr>"

definition inFlightChatInterface :: app_state where
  "inFlightChatInterface =
     store_after sessionState (until_gateway (handleSendMessage sessionState chatView sampleClock chatOk))"

definition inFlightUseChat :: app_state where
  "inFlightUseChat =
     store_after sessionState
       (until_gateway (snd (sendMessage sessionState ''What is this about?'' sampleClock chatOk)))"

section \<open>Properties of the reducer\<close>

text \<open>
  C1 (as stated, second half): no action other than \<open>SET_ERROR\<close> changes both
  \<open>error\<close> and \<open>isLoading\<close>.  \<open>RESET_STATE\<close> does: from a loading state
  with an error it yields \<open>error = null\<close> and \<open>isLoading = false\<close>.
\<close>

theorem C1_reset_changes_both:
  "RESET_STATE \<noteq> SET_ERROR (Some ''stale'')
   \<and> RESET_STATE \<noteq> SET_ERROR None
   \<and> error (appReducer busyState RESET_STATE) \<noteq> error busyState
   \<and> isLoading (appReducer busyState RESET_STATE) \<noteq> isLoading busyState"
  by (simp add: busyState_def initialState_def)

text \<open>
  C1 (amended): for every prior state and payload, \<open>SET_ERROR\<close> yields a state whose
  \<open>error\<close> is the payload and whose \<open>isLoading\<close> is false; every action other
  than \<open>SET_ERROR\<close> and \<open>RESET_STATE\<close> leaves \<open>error\<close> or \<open>isLoading\<close>
  as it was.
\<close>

theorem C1_SET_ERROR_couples_error_and_loading:
  "error (appReducer state (SET_ERROR payload)) = payload
   \<and> isLoading (appReducer state (SET_ERROR payload)) = False
   \<and> ((\<forall>p. a \<noteq> SET_ERROR p) \<and> a \<noteq> RESET_STATE \<longrightarrow>
        error (appReducer s a) = error s \<or> isLoading (appReducer s a) = isLoading s)"
  by (cases a) simp_all

theorem C1_SET_ERROR_couples_error_and_loading_witness:
  "error (appReducer busyState (SET_ERROR (Some ''boom''))) = Some ''boom''
   \<and> isLoading (appReducer busyState (SET_ERROR (Some ''boom''))) = False
   \<and> (\<forall>p. CLEAR_CHAT \<noteq> SET_ERROR p) \<and> CLEAR_CHAT \<noteq> RESET_STATE
   \<and> (error (appReducer busyState CLEAR_CHAT) = error busyState
        \<or> isLoading (appReducer busyState CLEAR_CHAT) = isLoading busyState)"
  using C1_SET_ERROR_couples_error_and_loading
    [of busyState "Some ''boom''" CLEAR_CHAT busyState]
  by simp

text \<open>
  C3: for every prior state, \<open>CLEAR_CHAT\<close> yields \<open>chatMessages = []\<close>,
  \<open>citations = []\<close> and \<open>error = null\<close>, and leaves \<open>pdfFile\<close>,
  \<open>sessionId\<close>, \<open>pdfDocument\<close>, \<open>currentPage\<close>, \<open>totalPages\<close> and
  \<open>isLoading\<close> as they were.
\<close>

theorem C3_CLEAR_CHAT_frame:
  "chatMessages (appReducer state CLEAR_CHAT) = []
   \<and> citations (appReducer state CLEAR_CHAT) = []
   \<and> error (appReducer state CLEAR_CHAT) = None
   \<and> pdfFile (appReducer state CLEAR_CHAT) = pdfFile state
   \<and> sessionId (appReducer state CLEAR_CHAT) = sessionId state
   \<and> pdfDocument (appReducer state CLEAR_CHAT) = pdfDocument state
   \<and> currentPage (appReducer state CLEAR_CHAT) = currentPage state
   \<and> totalPages (appReducer state CLEAR_CHAT) = totalPages state
   \<and> isLoading (appReducer state CLEAR_CHAT) = isLoading state"
  by simp

section \<open>Properties of the controllers\<close>

lemma dropWhile_all_again:
  "(\<forall>c \<in> set (dropWhile P s). P c) \<longleftrightarrow> (\<forall>c \<in> set s. P c)"
  by (induction s) simp_all

lemma trim_empty_iff: "trim s = [] \<longleftrightarrow> (\<forall>c \<in> set s. isWhiteSpace c)"
proof -
  have "trim s = [] \<longleftrightarrow> (\<forall>c \<in> set (dropWhile isWhiteSpace s). isWhiteSpace c)"
    by (simp add: trim_def)
  then show ?thesis by (simp only: dropWhile_all_again)
qed

lemma toString_nat_digit: "n < 10 \<Longrightarrow> toString_nat n = [''0123456789'' ! n]"
  by (subst toString_nat.simps) simp

lemma toString_nat_more:
  "10 \<le> n \<Longrightarrow> toString_nat n = toString_nat (n div 10) @ [''0123456789'' ! (n mod 10)]"
  by (subst toString_nat.simps) simp

lemma FILE_TOO_LARGE_text: "FILE_TOO_LARGE = ''File size must be less than 10MB''"
  by (simp add: FILE_TOO_LARGE_def MAX_FILE_SIZE_def toString_nat_digit toString_nat_more)

lemma validateFile_None: "validateFile None = Inl (Error ''No file selected'')"
  by (simp add: validateFile_def)

lemma validateFile_too_large:
  "file_size f > 10 * 1024 * 1024 \<Longrightarrow>
     validateFile (Some f) = Inl (Error ''File size must be less than 10MB'')"
  by (simp add: validateFile_def FILE_TOO_LARGE_text MAX_FILE_SIZE_def)

lemma validateFile_wrong_type:
  "file_size f \<le> 10 * 1024 * 1024 \<Longrightarrow> file_type f \<noteq> ''application/pdf'' \<Longrightarrow>
     validateFile (Some f) = Inl (Error ''Only PDF files are allowed'')"
  by (simp add: validateFile_def MAX_FILE_SIZE_def ALLOWED_FILE_TYPES_def INVALID_FILE_TYPE_def)

lemma validateFile_accepts:
  "file_size f \<le> 10 * 1024 * 1024 \<Longrightarrow> file_type f = ''application/pdf'' \<Longrightarrow>
     validateFile (Some f) = Inr True"
  by (simp add: validateFile_def MAX_FILE_SIZE_def ALLOWED_FILE_TYPES_def)

lemma validateFile_message_nonempty:
  assumes "validateFile f = Inl err" shows "message_of err \<noteq> []"
proof (cases f)
  case None
  with assms show ?thesis by (auto simp: validateFile_None)
next
  case (Some g)
  with assms show ?thesis
    by (auto simp: validateFile_def FILE_TOO_LARGE_text INVALID_FILE_TYPE_def split: if_splits)
qed

lemma upload_rejected:
  assumes "validateFile f = Inl err"
  shows "handleFileUpload state view f settled =
           [Dispatch (SET_ERROR (Some (message_of err))), SetIsUploading False, SetUploadProgress 0]"
  using assms validateFile_message_nonempty[OF assms]
  by (simp add: handleFileUpload_def uploadCatch_def handleApiError_def)

text \<open>
  C4: upload validation checks its preconditions in order and the first failure wins: a
  missing file fails with the no-file message; otherwise a file larger than
  \<open>MAX_FILE_SIZE\<close> (10 MiB) fails with the file-too-large message; otherwise a file
  whose MIME type is not \<open>application/pdf\<close> fails with the invalid-file-type
  message.  Whenever validation fails, \<open>handleFileUpload\<close> invokes no Gateway
  operation, dispatches \<open>SET_ERROR\<close> with the message and nothing else, and leaves
  the file and the session of the Store as they were.
\<close>

theorem C4_upload_validation:
  "validateFile None = Inl (Error ''No file selected'')
   \<and> MAX_FILE_SIZE = 10 * 1024 * 1024
   \<and> (file_size big > MAX_FILE_SIZE \<longrightarrow>
        validateFile (Some big) = Inl (Error ''File size must be less than 10MB''))
   \<and> (file_size other \<le> MAX_FILE_SIZE \<and> file_type other \<noteq> ''application/pdf'' \<longrightarrow>
        validateFile (Some other) = Inl (Error ''Only PDF files are allowed''))
   \<and> (validateFile f = Inl err \<longrightarrow>
        gateway_calls (handleFileUpload state view f settled) = []
        \<and> dispatched (handleFileUpload state view f settled) = [SET_ERROR (Some (message_of err))]
        \<and> pdfFile (store_after state (handleFileUpload state view f settled)) = pdfFile state
        \<and> sessionId (store_after state (handleFileUpload state view f settled)) = sessionId state)"
proof -
  have a: "MAX_FILE_SIZE = 10 * 1024 * 1024" by (simp add: MAX_FILE_SIZE_def)
  have b: "gateway_calls (handleFileUpload state view f settled) = []
        \<and> dispatched (handleFileUpload state view f settled) = [SET_ERROR (Some (message_of err))]
        \<and> pdfFile (store_after state (handleFileUpload state view f settled)) = pdfFile state
        \<and> sessionId (store_after state (handleFileUpload state view f settled)) = sessionId state"
    if "validateFile f = Inl err"
    by (simp add: upload_rejected[OF that] store_after_def)
  show ?thesis
    using validateFile_None validateFile_too_large[of big] validateFile_wrong_type[of other] b
    by (simp add: a)
qed

theorem C4_upload_validation_witness:
  "file_size pdf15MB > MAX_FILE_SIZE
   \<and> validateFile (Some pdf15MB) = Inl (Error ''File size must be less than 10MB'')
   \<and> file_size textFile \<le> MAX_FILE_SIZE \<and> file_type textFile \<noteq> ''application/pdf''
   \<and> validateFile (Some textFile) = Inl (Error ''Only PDF files are allowed'')
   \<and> gateway_calls (handleFileUpload sessionState uploadingView (Some textFile) uploadOk) = []
   \<and> dispatched (handleFileUpload sessionState uploadingView (Some textFile) uploadOk)
       = [SET_ERROR (Some ''Only PDF files are allowed'')]
   \<and> pdfFile (store_after sessionState (handleFileUpload sessionState uploadingView (Some textFile) uploadOk))
       = Some pdf2MB
   \<and> sessionId (store_after sessionState (handleFileUpload sessionState uploadingView (Some textFile) uploadOk))
       = Some ''s-1''"
proof -
  have big: "file_size pdf15MB > MAX_FILE_SIZE"
    by (simp add: pdf15MB_def MAX_FILE_SIZE_def)
  have other: "file_size textFile \<le> MAX_FILE_SIZE \<and> file_type textFile \<noteq> ''application/pdf''"
    by (simp add: textFile_def MAX_FILE_SIZE_def)
  have st: "pdfFile sessionState = Some pdf2MB" "sessionId sessionState = Some ''s-1''"
    by (simp_all add: sessionState_def)
  note inst = C4_upload_validation [of pdf15MB textFile "Some textFile"
      "Error ''Only PDF files are allowed''" sessionState uploadingView uploadOk]
  from inst big have 1: "validateFile (Some pdf15MB) = Inl (Error ''File size must be less than 10MB'')"
    by blast
  from inst other have 2: "validateFile (Some textFile) = Inl (Error ''Only PDF files are allowed'')"
    by blast
  from inst 2 st show ?thesis
    using big other 1 by simp
qed

text \<open>
  The guard of the two send functions: when the text is empty or white space only, or
  \<open>sessionId\<close> is unset, or \<open>isLoading\<close> is true, \<open>sendMessage\<close> of
  \<open>useChat\<close> returns the failure \<open>Invalid message or session\<close> and
  \<open>handleSendMessage\<close> of \<open>ChatInterface\<close> returns no value, and neither
  performs any effect.
\<close>

lemma chat_send_guard:
  "((\<forall>c \<in> set msg. isWhiteSpace c) \<or> sessionId state = None \<or> isLoading state \<longrightarrow>
      sendMessage state msg clk settled = (SendFailure ''Invalid message or session'', []))
   \<and> ((\<forall>c \<in> set (message view). isWhiteSpace c) \<or> sessionId state = None \<or> isLoading state \<longrightarrow>
      handleSendMessage state view clk settled = [])"
  by (auto simp: sendMessage_def handleSendMessage_def trim_empty_iff truthy_def)

lemma trim_examples:
  "trim ''What is this about?'' = ''What is this about?''" "trim ''And then?'' = ''And then?''"
  by (simp_all add: trim_def isWhiteSpace_def)

lemma first_send_ChatInterface:
  "until_gateway (handleSendMessage sessionState chatView sampleClock chatOk)
     = [SetMessage [],
        Dispatch (ADD_CHAT_MESSAGE
          \<lparr> msg_id = 1000, msg_type = USER, content = ''What is this about?'',
            msg_citations = None, timestamp = ''t0'', tokenUsage = None \<rparr>),
        Dispatch CLEAR_ERROR, SetIsTyping True, Timeout 500,
        Gateway (SendMessage ''What is this about?'' (Some ''s-1''))]"
  by (simp add: handleSendMessage_def chatView_def trim_examples truthy_def sessionState_def
      initialState_def sampleClock_def TYPING_INDICATOR_DELAY_def Let_def)

lemma first_send_useChat:
  "until_gateway (snd (sendMessage sessionState ''What is this about?'' sampleClock chatOk))
     = [Dispatch (ADD_CHAT_MESSAGE
          \<lparr> msg_id = 1000, msg_type = USER, content = ''What is this about?'',
            msg_citations = None, timestamp = ''t0'', tokenUsage = None \<rparr>),
        Dispatch CLEAR_ERROR, Dispatch (SET_LOADING True),
        Gateway (SendMessage ''What is this about?'' (Some ''s-1''))]"
  by (simp add: sendMessage_def trim_examples truthy_def sessionState_def
      initialState_def sampleClock_def chatOk_def api_call_def Let_def)

lemma inFlightChatInterface_fields:
  "isLoading inFlightChatInterface = False" "sessionId inFlightChatInterface = Some ''s-1''"
  "length (chatMessages inFlightChatInterface) = 1"
  unfolding inFlightChatInterface_def first_send_ChatInterface
  by (simp_all add: store_after_def sessionState_def initialState_def)

lemma inFlightUseChat_fields:
  "isLoading inFlightUseChat = True" "sessionId inFlightUseChat = Some ''s-1''"
  unfolding inFlightUseChat_def first_send_useChat
  by (simp_all add: store_after_def sessionState_def initialState_def)

text \<open>
  C5: chat send is a no-op returning failure, with no side effects, whenever a request is
  already in flight.  \<open>sendMessage\<close> of \<open>useChat\<close> is: it dispatches
  \<open>SET_LOADING\<close> before its Gateway call, and a second call made then is refused.
  \<open>handleSendMessage\<close> of \<open>ChatInterface\<close> is not: it tests
  \<open>isLoading\<close> but never sets it, so while its request is in flight
  \<open>isLoading\<close> is still false and a second call appends its message and invokes
  the Gateway again.
\<close>

theorem C5_second_send_while_in_flight:
  "gateway_calls (until_gateway (handleSendMessage sessionState chatView sampleClock chatOk))
     = [SendMessage ''What is this about?'' (Some ''s-1'')]
   \<and> isLoading inFlightChatInterface = False
   \<and> gateway_calls (handleSendMessage inFlightChatInterface secondView laterClock chatOk)
       = [SendMessage ''And then?'' (Some ''s-1'')]
   \<and> length (chatMessages
         (store_after inFlightChatInterface
            (handleSendMessage inFlightChatInterface secondView laterClock chatOk))) = 3
   \<and> gateway_calls
        (until_gateway (snd (sendMessage sessionState ''What is this about?'' sampleClock chatOk)))
       = [SendMessage ''What is this about?'' (Some ''s-1'')]
   \<and> isLoading inFlightUseChat = True
   \<and> sendMessage inFlightUseChat ''And then?'' laterClock chatOk
       = (SendFailure ''Invalid message or session'', [])"
proof -
  have a: "gateway_calls (until_gateway (handleSendMessage sessionState chatView sampleClock chatOk))
     = [SendMessage ''What is this about?'' (Some ''s-1'')]"
    by (simp add: first_send_ChatInterface)
  have second: "handleSendMessage inFlightChatInterface secondView laterClock chatOk
      = [SetMessage [],
         Dispatch (ADD_CHAT_MESSAGE
           \<lparr> msg_id = 1200, msg_type = USER, content = ''And then?'',
             msg_citations = None, timestamp = ''t0b'', tokenUsage = None \<rparr>),
         Dispatch CLEAR_ERROR, SetIsTyping True, Timeout 500,
         Gateway (SendMessage ''And then?'' (Some ''s-1'')),
         SetIsTyping False,
         Dispatch (ADD_CHAT_MESSAGE
           \<lparr> msg_id = 2201, msg_type = ASSISTANT, content = ''See (Page 5) and (page 12)'',
             msg_citations = Some (extractCitations ''See (Page 5) and (page 12)''),
             timestamp = ''t1b'', tokenUsage = None \<rparr>)]"
    by (simp add: handleSendMessage_def secondView_def trim_examples truthy_def
        inFlightChatInterface_fields laterClock_def TYPING_INDICATOR_DELAY_def Let_def
        chatOk_def api_call_def)
  have b: "gateway_calls (handleSendMessage inFlightChatInterface secondView laterClock chatOk)
       = [SendMessage ''And then?'' (Some ''s-1'')]"
    by (simp add: second)
  have c: "length (chatMessages
         (store_after inFlightChatInterface
            (handleSendMessage inFlightChatInterface secondView laterClock chatOk))) = 3"
    by (simp add: second store_after_def inFlightChatInterface_fields)
  have d: "gateway_calls
        (until_gateway (snd (sendMessage sessionState ''What is this about?'' sampleClock chatOk)))
       = [SendMessage ''What is this about?'' (Some ''s-1'')]"
    by (simp add: first_send_useChat)
  have e: "sendMessage inFlightUseChat ''And then?'' laterClock chatOk
       = (SendFailure ''Invalid message or session'', [])"
    by (simp add: sendMessage_def inFlightUseChat_fields)
  from a b c d e inFlightChatInterface_fields(1) inFlightUseChat_fields(1)
  show ?thesis by simp
qed

theorem C5_second_send_while_in_flight_witness:
  "gateway_calls (handleSendMessage inFlightChatInterface secondView laterClock chatOk) \<noteq> []
   \<and> dispatched (snd (sendMessage inFlightUseChat ''And then?'' laterClock chatOk)) = []"
  using C5_second_send_while_in_flight by simp

text \<open>
  C2 (as stated): a call of \<open>handleFileUpload\<close> made while \<open>isLoading\<close> and
  the local uploading flag are true returns without invoking a Gateway operation or
  dispatching.  It does not: with a valid file it uploads and dispatches as always.
\<close>

theorem C2_upload_starts_while_busy:
  "isLoading busyState \<and> isUploading uploadingView
   \<and> gateway_calls (handleFileUpload busyState uploadingView (Some pdf2MB) uploadOk)
       = [UploadPDF (Some pdf2MB)]
   \<and> dispatched (handleFileUpload busyState uploadingView (Some pdf2MB) uploadOk)
       = [CLEAR_ERROR, SET_LOADING True, SET_PDF_FILE (Some pdf2MB), SET_SESSION_ID (Some ''s-2''),
          SET_LOADING False]"
  by (simp add: busyState_def uploadingView_def handleFileUpload_def validateFile_def pdf2MB_def
      MAX_FILE_SIZE_def ALLOWED_FILE_TYPES_def uploadOk_def api_call_def)

text \<open>
  C2 (amended): the chat controller starts no new operation while \<open>isLoading\<close> is
  true: every call of \<open>handleSendMessage\<close> and of \<open>sendMessage\<close> made then
  returns without invoking any Gateway operation and without dispatching any action.
  \<open>handleFileUpload\<close> has no such guard: its effects depend neither on the Store
  nor on the uploading flag (the view disables the file input while uploading).
\<close>

theorem C2_chat_refuses_while_loading:
  "(isLoading state \<longrightarrow>
      handleSendMessage state view clk settled = []
      \<and> sendMessage state msg clk settled = (SendFailure ''Invalid message or session'', []))
   \<and> handleFileUpload state uview f usettled = handleFileUpload state' uview' f usettled"
  by (simp add: handleSendMessage_def sendMessage_def handleFileUpload_def)

theorem C2_chat_refuses_while_loading_witness:
  "isLoading (sessionState\<lparr>isLoading := True\<rparr>)
   \<and> truthy (sessionId (sessionState\<lparr>isLoading := True\<rparr>))
   \<and> trim (message chatView) \<noteq> []
   \<and> handleSendMessage (sessionState\<lparr>isLoading := True\<rparr>) chatView sampleClock chatOk = []
   \<and> sendMessage (sessionState\<lparr>isLoading := True\<rparr>) ''What is this about?'' sampleClock chatOk
       = (SendFailure ''Invalid message or session'', [])
   \<and> gateway_calls (handleSendMessage sessionState chatView sampleClock chatOk)
       = [SendMessage ''What is this about?'' (Some ''s-1'')]"
proof -
  have a: "isLoading (sessionState\<lparr>isLoading := True\<rparr>)" by simp
  have b: "truthy (sessionId (sessionState\<lparr>isLoading := True\<rparr>))"
    by (simp add: sessionState_def truthy_def)
  have c: "trim (message chatView) = ''What is this about?''"
    by (simp add: chatView_def trim_def isWhiteSpace_def)
  have d: "gateway_calls (handleSendMessage sessionState chatView sampleClock chatOk)
       = [SendMessage ''What is this about?'' (Some ''s-1'')]"
    by (simp add: handleSendMessage_def c truthy_def sessionState_def initialState_def
        chatOk_def api_call_def Let_def)
  show ?thesis
    using a b c d
      C2_chat_refuses_while_loading [of "sessionState\<lparr>isLoading := True\<rparr>" chatView sampleClock
        chatOk "''What is this about?''"]
    by simp
qed

section \<open>Properties of the Gateway\<close>

lemma normalized_response:
  "ax_response e = Some r \<Longrightarrow>
     normalizedMessage e d =
       (if status r = 400 then ''Bad Request: '' @ server_message (data r)
        else if status r = 401 then ''Unauthorized access''
        else if status r = 403 then ''Access forbidden''
        else if status r = 404 then ''Resource not found''
        else if status r = 429 then ''Too many requests. Please try again later.''
        else if status r = 500 then ''Internal server error. Please try again.''
        else ''Server error ('' @ toString_nat (status r) @ ''): '' @ server_message (data r))"
  by (simp add: normalizedMessage_def responseErrorInterceptor_def handleApiError_def Let_def)

lemma or_default_nonempty: "d \<noteq> [] \<Longrightarrow> or_default x d \<noteq> []"
  by (simp add: or_default_def split: option.splits)

lemma normalized_no_response:
  "ax_response e = None \<Longrightarrow>
     normalizedMessage e d =
       (if ax_request e then ''Unable to connect to server. Please check your connection.''
        else or_default (ax_message e) ''An unexpected error occurred'')"
  using or_default_nonempty [of "''An unexpected error occurred''" "ax_message e"]
  by (simp add: normalizedMessage_def responseErrorInterceptor_def handleApiError_def)

text \<open>
  C8 (as stated, last case): a rejection with neither response nor request yields the
  underlying error's own message or the caller-supplied default.  For an error whose
  message is empty the interceptor substitutes its own text, so the caller sees neither.
\<close>

theorem C8_blank_error_gets_gateway_fallback:
  "ax_response errBlank = None \<and> \<not> ax_request errBlank \<and> ax_message errBlank = Some []
   \<and> normalizedMessage errBlank CHAT_FAILED = ''An unexpected error occurred''
   \<and> normalizedMessage errBlank CHAT_FAILED \<noteq> CHAT_FAILED
   \<and> normalizedMessage errBlank CHAT_FAILED \<noteq> []"
  by (simp add: errBlank_def normalized_no_response or_default_def CHAT_FAILED_def)

text \<open>
  C8 (amended): the Gateway normalizes every rejected call to a single string by a fixed
  mapping: HTTP 400 yields \<open>Bad Request: \<close> followed by the server's message, 401
  \<open>Unauthorized access\<close>, 403 \<open>Access forbidden\<close>, 404 exactly
  \<open>Resource not found\<close>, 429 a too-many-requests message, 500 an
  internal-server-error message, any other status \<open>Server error (<code>): \<close>
  followed by the server's message, a request with no response
  \<open>Unable to connect to server. Please check your connection.\<close>, and any other
  failure the underlying error's own message when it has one and
  \<open>An unexpected error occurred\<close> otherwise.  The caller-supplied default never
  shows for a rejected call.
\<close>

theorem C8_gateway_error_mapping:
  "(ax_response e = Some r \<longrightarrow>
      (status r = 400 \<longrightarrow> normalizedMessage e d = ''Bad Request: '' @ server_message (data r)
                           \<and> prefix ''Bad Request'' (normalizedMessage e d))
      \<and> (status r = 401 \<longrightarrow> normalizedMessage e d = ''Unauthorized access'')
      \<and> (status r = 403 \<longrightarrow> normalizedMessage e d = ''Access forbidden'')
      \<and> (status r = 404 \<longrightarrow> normalizedMessage e d = ''Resource not found'')
      \<and> (status r = 429 \<longrightarrow>
            normalizedMessage e d = ''Too many requests. Please try again later.'')
      \<and> (status r = 500 \<longrightarrow>
            normalizedMessage e d = ''Internal server error. Please try again.'')
      \<and> (status r \<notin> {400, 401, 403, 404, 429, 500} \<longrightarrow>
            normalizedMessage e d
              = ''Server error ('' @ toString_nat (status r) @ ''): '' @ server_message (data r)))
   \<and> (ax_response e = None \<and> ax_request e \<longrightarrow>
        normalizedMessage e d = ''Unable to connect to server. Please check your connection.'')
   \<and> (ax_response e = None \<and> \<not> ax_request e \<longrightarrow>
        normalizedMessage e d
          = (if truthy (ax_message e) then the (ax_message e)
             else ''An unexpected error occurred''))"
proof -
  have "or_default (ax_message e) ''An unexpected error occurred''
          = (if truthy (ax_message e) then the (ax_message e) else ''An unexpected error occurred'')"
    by (simp add: or_default_def truthy_def split: option.splits)
  then show ?thesis
    by (auto simp: normalized_response normalized_no_response)
qed

theorem C8_gateway_error_mapping_witness:
  "normalizedMessage err404 UPLOAD_FAILED = ''Resource not found''
   \<and> normalizedMessage err400 UPLOAD_FAILED = ''Bad Request: No file''
   \<and> prefix ''Bad Request'' (normalizedMessage err400 UPLOAD_FAILED)
   \<and> normalizedMessage err503 CHAT_FAILED = ''Server error (503): Overloaded''
   \<and> normalizedMessage errTimeout CHAT_FAILED
       = ''Unable to connect to server. Please check your connection.''
   \<and> normalizedMessage errSetup CHAT_FAILED = ''Invalid URL''"
proof -
  have r404: "ax_response err404 = Some \<lparr> status = 404, data = None \<rparr>"
    by (simp add: err404_def)
  have r400: "ax_response err400
      = Some \<lparr> status = 400, data = Some \<lparr> detail = Some ''No file'', data_message = None \<rparr> \<rparr>"
    by (simp add: err400_def)
  have r503: "ax_response err503
      = Some \<lparr> status = 503, data = Some \<lparr> detail = None, data_message = Some ''Overloaded'' \<rparr> \<rparr>"
    by (simp add: err503_def)
  have t: "ax_response errTimeout = None" "ax_request errTimeout"
    by (simp_all add: errTimeout_def)
  have s: "ax_response errSetup = None" "\<not> ax_request errSetup"
    "ax_message errSetup = Some ''Invalid URL''"
    by (simp_all add: errSetup_def)
  have n503: "toString_nat 503 = ''503''"
    by (simp add: toString_nat_digit toString_nat_more)
  from C8_gateway_error_mapping [of err404 "\<lparr> status = 404, data = None \<rparr>" UPLOAD_FAILED] r404
  have 1: "normalizedMessage err404 UPLOAD_FAILED = ''Resource not found''" by simp
  from C8_gateway_error_mapping
    [of err400 "\<lparr> status = 400, data = Some \<lparr> detail = Some ''No file'', data_message = None \<rparr> \<rparr>"
      UPLOAD_FAILED] r400
  have 2: "normalizedMessage err400 UPLOAD_FAILED = ''Bad Request: No file''"
    by (simp add: server_message_def or_default_def)
  from C8_gateway_error_mapping
    [of err503 "\<lparr> status = 503, data = Some \<lparr> detail = None, data_message = Some ''Overloaded'' \<rparr> \<rparr>"
      CHAT_FAILED] r503
  have 3: "normalizedMessage err503 CHAT_FAILED = ''Server error (503): Overloaded''"
    by (simp add: server_message_def or_default_def n503)
  from C8_gateway_error_mapping [of errTimeout _ CHAT_FAILED] t
  have 4: "normalizedMessage errTimeout CHAT_FAILED
       = ''Unable to connect to server. Please check your connection.''" by simp
  from C8_gateway_error_mapping [of errSetup _ CHAT_FAILED] s
  have 5: "normalizedMessage errSetup CHAT_FAILED = ''Invalid URL''"
    by (simp add: truthy_def)
  from 1 2 3 4 5 show ?thesis by simp
qed

section \<open>Properties of the citation chip and of rendering\<close>

text \<open>
  C10: a click on the chip of a citation whose \<open>page\<close> is truthy dispatches
  \<open>SET_CURRENT_PAGE\<close> with that page, whatever \<open>totalPages\<close> is, so that
  \<open>currentPage\<close> becomes the page and \<open>totalPages\<close> stays; every page number
  other than 0 is truthy.  A click on the chip of a citation whose \<open>page\<close> is
  absent, \<open>null\<close> or zero dispatches nothing and leaves the Store unchanged, whether
  or not the citation has a section.
\<close>

theorem C10_citation_click:
  "(page c = pageNo p \<and> p \<noteq> 0 \<longrightarrow>
      dispatched (handleCitationClick c) = [SET_CURRENT_PAGE (pageNo p)]
      \<and> currentPage (store_after state (handleCitationClick c)) = pageNo p
      \<and> totalPages (store_after state (handleCitationClick c)) = totalPages state)
   \<and> (truthy_value (page d) \<longrightarrow>
      dispatched (handleCitationClick d) = [SET_CURRENT_PAGE (page d)]
      \<and> currentPage (store_after state (handleCitationClick d)) = page d
      \<and> totalPages (store_after state (handleCitationClick d)) = totalPages state)
   \<and> (page c' = Undefined \<or> page c' = Null \<or> page c' = pageNo 0 \<longrightarrow>
        dispatched (handleCitationClick c') = []
        \<and> store_after state (handleCitationClick c') = state)"
  by (auto simp: handleCitationClick_def store_after_def)

theorem C10_citation_click_witness:
  "page citation99 = pageNo 99 \<and> totalPages sessionState = 10
   \<and> dispatched (handleCitationClick citation99) = [SET_CURRENT_PAGE (pageNo 99)]
   \<and> currentPage (store_after sessionState (handleCitationClick citation99)) = pageNo 99
   \<and> totalPages (store_after sessionState (handleCitationClick citation99)) = 10
   \<and> page citationIntro = Undefined \<and> cit_section citationIntro = Some ''Introduction''
   \<and> dispatched (handleCitationClick citationIntro) = []
   \<and> store_after sessionState (handleCitationClick citationIntro) = sessionState"
proof -
  have a: "page citation99 = pageNo 99" "page citationIntro = Undefined"
    "cit_section citationIntro = Some ''Introduction''"
    by (simp_all add: citation99_def citationIntro_def)
  have b: "totalPages sessionState = 10" by (simp add: sessionState_def)
  show ?thesis
    using a b C10_citation_click [of citation99 99 sessionState citation99 citationIntro]
    by simp
qed

lemma map_set_keys:
  "map fst (map_set m k v) = (if k \<in> fst ` set m then map fst m else map fst m @ [k])"
  by (induction m) force+

lemma map_of_map_set: "map_of (map_set m k v) = (map_of m)(k \<mapsto> v)"
  by (induction m) (auto simp: fun_eq_iff)

lemma new_Map_snoc: "new_Map (es @ [(k, v)]) = map_set (new_Map es) k v"
  by (simp add: new_Map_def)

lemma new_Map_keys: "map fst (new_Map es) = rev (remdups (rev (map fst es)))"
proof (induction es rule: rev_induct)
  case Nil
  show ?case by (simp add: new_Map_def)
next
  case (snoc e es)
  obtain k v where e: "e = (k, v)" by (cases e)
  have "fst ` set (new_Map es) = set (map fst (new_Map es))" by simp
  also have "\<dots> = fst ` set es" by (simp add: snoc.IH)
  finally have keys: "fst ` set (new_Map es) = fst ` set es" .
  show ?case
    by (simp add: e new_Map_snoc map_set_keys keys snoc.IH)
qed

lemma new_Map_distinct: "distinct (map fst (new_Map es))"
  by (simp add: new_Map_keys)

lemma new_Map_lookup: "map_of (new_Map es) = map_of (rev es)"
proof (induction es rule: rev_induct)
  case Nil
  show ?case by (simp add: new_Map_def)
next
  case (snoc e es)
  obtain k v where e: "e = (k, v)" by (cases e)
  show ?case
    by (simp add: e new_Map_snoc map_of_map_set snoc.IH fun_eq_iff)
qed

lemma last_by_page:
  "map_of (rev (map (\<lambda>c. (page c, c)) cs)) k = Some c \<Longrightarrow>
     page c = k \<and> c = last (filter (\<lambda>d. page d = k) cs)"
  by (induction cs rule: rev_induct) (auto split: if_splits)

lemma uniqueCitations_pages:
  "map page (uniqueCitations cs) = rev (remdups (rev (map page cs)))"
proof -
  have "map page (uniqueCitations cs) = map fst (new_Map (map (\<lambda>c. (page c, c)) cs))"
  proof -
    have "\<forall>(k, c) \<in> set (new_Map (map (\<lambda>c. (page c, c)) cs)). page c = k"
    proof clarify
      fix k c assume "(k, c) \<in> set (new_Map (map (\<lambda>c. (page c, c)) cs))"
      then have "map_of (new_Map (map (\<lambda>c. (page c, c)) cs)) k = Some c"
        using new_Map_distinct by (metis map_of_is_SomeI)
      then have "map_of (rev (map (\<lambda>c. (page c, c)) cs)) k = Some c"
        by (simp add: new_Map_lookup)
      from last_by_page[OF this] show "page c = k" ..
    qed
    then show ?thesis
      unfolding uniqueCitations_def by (auto simp: map_eq_conv)
  qed
  then show ?thesis by (simp add: new_Map_keys comp_def)
qed

lemma uniqueCitations_last:
  assumes "c \<in> set (uniqueCitations cs)"
  shows "c = last (filter (\<lambda>d. page d = page c) cs)"
proof -
  from assms obtain k where "(k, c) \<in> set (new_Map (map (\<lambda>c. (page c, c)) cs))"
    by (auto simp: uniqueCitations_def)
  then have "map_of (new_Map (map (\<lambda>c. (page c, c)) cs)) k = Some c"
    using new_Map_distinct by (metis map_of_is_SomeI)
  then have "map_of (rev (map (\<lambda>c. (page c, c)) cs)) k = Some c"
    by (simp add: new_Map_lookup)
  from last_by_page[OF this]
  have pk: "page c = k" and l: "c = last (filter (\<lambda>d. page d = k) cs)" by blast+
  show ?thesis unfolding pk by (rule l)
qed

lemma renderCitations_unique:
  "msg_citations msg = Some cs \<Longrightarrow> map fst (renderCitations msg) = uniqueCitations cs"
  by (cases cs) (simp_all add: renderCitations_def uniqueCitations_def new_Map_def)

lemma uniqueCitations_example:
  "uniqueCitations [cite (pageNo 3) None, cite (pageNo 3) None, cite (pageNo 7) None]
     = [cite (pageNo 3) None, cite (pageNo 7) None]"
  by (simp add: uniqueCitations_def new_Map_def cite_def)


lemma renderCitations_indices:
  "map snd (renderCitations msg) = [0 ..< length (renderCitations msg)]"
  by (simp add: renderCitations_def split: option.splits)

text \<open>
  C7: the chips under a message are its citations grouped under a map keyed by page: the
  pages of the chips are the distinct pages of the stored list in the order in which
  they first occur (\<open>remdups\<close> keeps the last occurrence of each element, so on the
  reversed list it keeps the first), the chips are numbered from 0, and each chip shows
  the last stored citation of its page.  For the stored list
  \<open>[{page:3},{page:3},{page:7}]\<close> two chips are rendered, for the pages 3 and 7 in
  that order.  Rendering is a function of the message: the stored list stays as it is.
\<close>

theorem C7_render_dedup:
  "(msg_citations msg = Some cs \<longrightarrow>
      map (page \<circ> fst) (renderCitations msg) = rev (remdups (rev (map page cs)))
      \<and> map snd (renderCitations msg) = [0 ..< length (renderCitations msg)]
      \<and> (\<forall>chip \<in> set (renderCitations msg).
            fst chip = last (filter (\<lambda>d. page d = page (fst chip)) cs)))
   \<and> map (page \<circ> fst)
         (renderCitations
            (assistantMessage [cite (pageNo 3) None, cite (pageNo 3) None, cite (pageNo 7) None]))
       = [pageNo 3, pageNo 7]
   \<and> length
         (renderCitations
            (assistantMessage [cite (pageNo 3) None, cite (pageNo 3) None, cite (pageNo 7) None]))
       = 2"
proof -
  have general: "map (page \<circ> fst) (renderCitations msg) = rev (remdups (rev (map page cs)))
      \<and> (\<forall>chip \<in> set (renderCitations msg).
            fst chip = last (filter (\<lambda>d. page d = page (fst chip)) cs))"
    if cs: "msg_citations msg = Some cs"
  proof -
    have u: "map fst (renderCitations msg) = uniqueCitations cs"
      by (rule renderCitations_unique [OF cs])
    have "map (page \<circ> fst) (renderCitations msg) = map page (map fst (renderCitations msg))"
      by simp
    then have a: "map (page \<circ> fst) (renderCitations msg) = rev (remdups (rev (map page cs)))"
      by (simp only: u uniqueCitations_pages)
    have b: "fst chip = last (filter (\<lambda>d. page d = page (fst chip)) cs)"
      if "chip \<in> set (renderCitations msg)" for chip
    proof -
      from that have "fst chip \<in> set (map fst (renderCitations msg))" by simp
      then have "fst chip \<in> set (uniqueCitations cs)" by (simp only: u)
      then show ?thesis by (rule uniqueCitations_last)
    qed
    from a b show ?thesis by blast
  qed
  have ex: "map fst (renderCitations
            (assistantMessage [cite (pageNo 3) None, cite (pageNo 3) None, cite (pageNo 7) None]))
         = [cite (pageNo 3) None, cite (pageNo 7) None]"
    by (simp add: renderCitations_unique assistantMessage_def uniqueCitations_example)
  have ex1: "map (page \<circ> fst) (renderCitations
            (assistantMessage [cite (pageNo 3) None, cite (pageNo 3) None, cite (pageNo 7) None]))
         = [pageNo 3, pageNo 7]"
    using arg_cong [OF ex, of "map page"] by (simp add: cite_def)
  have ex2: "length (renderCitations
            (assistantMessage [cite (pageNo 3) None, cite (pageNo 3) None, cite (pageNo 7) None])) = 2"
    using arg_cong [OF ex, of length] by simp
  show ?thesis
    using general renderCitations_indices ex1 ex2 by blast
qed

theorem C7_render_dedup_witness:
  "msg_citations
      (assistantMessage
         [cite (pageNo 3) (Some ''first''), cite (pageNo 3) (Some ''second''), cite (pageNo 7) None])
     = Some [cite (pageNo 3) (Some ''first''), cite (pageNo 3) (Some ''second''), cite (pageNo 7) None]
   \<and> renderCitations
        (assistantMessage
           [cite (pageNo 3) (Some ''first''), cite (pageNo 3) (Some ''second''), cite (pageNo 7) None])
       = [(cite (pageNo 3) (Some ''second''), 0), (cite (pageNo 7) None, 1)]
   \<and> map (page \<circ> fst)
        (renderCitations
           (assistantMessage
              [cite (pageNo 3) (Some ''first''), cite (pageNo 3) (Some ''second''), cite (pageNo 7) None]))
       = rev (remdups (rev [pageNo 3, pageNo 3, pageNo 7]))"
proof -
  let ?cs = "[cite (pageNo 3) (Some ''first''), cite (pageNo 3) (Some ''second''), cite (pageNo 7) None]"
  have a: "msg_citations (assistantMessage ?cs) = Some ?cs"
    by (simp add: assistantMessage_def)
  have u: "uniqueCitations ?cs = [cite (pageNo 3) (Some ''second''), cite (pageNo 7) None]"
    by (simp add: uniqueCitations_def new_Map_def cite_def)
  have b: "renderCitations (assistantMessage ?cs)
       = [(cite (pageNo 3) (Some ''second''), 0), (cite (pageNo 7) None, 1)]"
    by (simp add: renderCitations_def a u upt_rec)
  have c: "map page ?cs = [pageNo 3, pageNo 3, pageNo 7]" by (simp add: cite_def)
  from C7_render_dedup [of "assistantMessage ?cs" ?cs] a
  have "map (page \<circ> fst) (renderCitations (assistantMessage ?cs))
          = rev (remdups (rev (map page ?cs)))" by blast
  with a b c show ?thesis by simp
qed

lemma distinct_filter_le_1:
  "distinct (map f ys) \<Longrightarrow> length (filter (\<lambda>y. f y = a) ys) \<le> 1"
proof (induction ys)
  case Nil
  show ?case by simp
next
  case (Cons y ys)
  show ?case
  proof (cases "f y = a")
    case True
    with Cons.prems have "a \<notin> f ` set ys" by simp
    then have "\<forall>z \<in> set ys. f z \<noteq> a" by blast
    then have "filter (\<lambda>y. f y = a) ys = []" by (simp add: filter_empty_conv)
    with True show ?thesis by simp
  next
    case False
    with Cons show ?thesis by simp
  qed
qed

lemma uniqueCitations_distinct: "distinct (map page (uniqueCitations cs))"
  by (simp add: uniqueCitations_pages)

lemma chips_per_key_le_1:
  "length (filter (\<lambda>chip. page (fst chip) = v) (renderCitations msg)) \<le> 1"
proof (cases "msg_citations msg")
  case None
  then show ?thesis by (simp add: renderCitations_def)
next
  case (Some cs)
  have "length (filter (\<lambda>chip. page (fst chip) = v) (renderCitations msg))
          = length (filter (\<lambda>c. page c = v) (map fst (renderCitations msg)))"
    by (simp add: filter_map comp_def)
  also have "\<dots> = length (filter (\<lambda>c. page c = v) (uniqueCitations cs))"
    by (simp only: renderCitations_unique [OF Some])
  also have "\<dots> \<le> 1"
    by (rule distinct_filter_le_1 [OF uniqueCitations_distinct])
  finally show ?thesis .
qed

lemma filter_either_length:
  "length (filter (\<lambda>x. P x \<or> Q x) xs) \<le> length (filter P xs) + length (filter Q xs)"
  by (induction xs) auto

text \<open>
  C9 (as stated): all the citations of a message that have no page share the key
  \<open>undefined\<close>, so at most one chip is rendered for them.  A citation whose page is
  \<open>null\<close> has the key \<open>null\<close>: of three citations without a page, two with
  \<open>null\<close> and one with the field absent, two chips are rendered.
\<close>

theorem C9_null_and_absent_page_two_chips:
  "renderCitations
     (assistantMessage [cite Null (Some ''A''), cite Undefined (Some ''B''), cite Null (Some ''C'')])
     = [(cite Null (Some ''C''), 0), (cite Undefined (Some ''B''), 1)]
   \<and> length
        (filter (\<lambda>chip. page (fst chip) = Undefined \<or> page (fst chip) = Null)
           (renderCitations
              (assistantMessage
                 [cite Null (Some ''A''), cite Undefined (Some ''B''), cite Null (Some ''C'')])))
       = 2"
proof -
  let ?cs = "[cite Null (Some ''A''), cite Undefined (Some ''B''), cite Null (Some ''C'')]"
  have a: "msg_citations (assistantMessage ?cs) = Some ?cs"
    by (simp add: assistantMessage_def)
  have u: "uniqueCitations ?cs = [cite Null (Some ''C''), cite Undefined (Some ''B'')]"
    by (simp add: uniqueCitations_def new_Map_def cite_def)
  have r: "renderCitations (assistantMessage ?cs)
             = [(cite Null (Some ''C''), 0), (cite Undefined (Some ''B''), 1)]"
    by (simp add: renderCitations_def a u upt_rec)
  show ?thesis unfolding r by (simp add: cite_def)
qed

text \<open>
  C9 (amended): render-time deduplication keys the map by the page field, so all the
  citations of a message with the same page value share one chip: at most one chip is
  rendered for the citations whose page is absent (key \<open>undefined\<close>) and at most one
  for those whose page is \<open>null\<close>, hence at most two chips without a page, however
  many such citations are stored; when the stored list holds two or more citations with
  the same page value (absent, say), exactly one chip stands for all of them.
\<close>

theorem C9_one_chip_per_page_key:
  "length (filter (\<lambda>chip. page (fst chip) = v) (renderCitations msg)) \<le> 1
   \<and> length (filter (\<lambda>chip. page (fst chip) = Undefined \<or> page (fst chip) = Null)
              (renderCitations msg)) \<le> 2
   \<and> (msg_citations msg = Some cs \<and> 2 \<le> length (filter (\<lambda>c. page c = v) cs) \<longrightarrow>
        length (filter (\<lambda>chip. page (fst chip) = v) (renderCitations msg)) = 1)"
proof -
  have one: "length (filter (\<lambda>chip. page (fst chip) = v) (renderCitations msg)) = 1"
    if cs: "msg_citations msg = Some cs" and two: "2 \<le> length (filter (\<lambda>c. page c = v) cs)"
  proof -
    from two have "filter (\<lambda>c. page c = v) cs \<noteq> []" by auto
    then have "v \<in> set (map page cs)" by (force simp: filter_empty_conv)
    then have "v \<in> set (map page (uniqueCitations cs))"
      by (simp add: uniqueCitations_pages)
    then have "v \<in> set (map (page \<circ> fst) (renderCitations msg))"
      using renderCitations_unique [OF cs] by (metis map_map)
    then have "filter (\<lambda>chip. page (fst chip) = v) (renderCitations msg) \<noteq> []"
      by (fastforce simp: filter_empty_conv)
    then have "1 \<le> length (filter (\<lambda>chip. page (fst chip) = v) (renderCitations msg))"
      by (simp add: Suc_le_eq)
    with chips_per_key_le_1 [of v msg] show ?thesis by simp
  qed
  have "length (filter (\<lambda>chip. page (fst chip) = Undefined \<or> page (fst chip) = Null)
              (renderCitations msg))
          \<le> length (filter (\<lambda>chip. page (fst chip) = Undefined) (renderCitations msg))
            + length (filter (\<lambda>chip. page (fst chip) = Null) (renderCitations msg))"
    by (rule filter_either_length)
  also have "\<dots> \<le> 1 + 1"
    by (rule add_mono) (rule chips_per_key_le_1)+
  finally have two: "length (filter (\<lambda>chip. page (fst chip) = Undefined \<or> page (fst chip) = Null)
              (renderCitations msg)) \<le> 2" by simp
  from one two chips_per_key_le_1 [of v msg] show ?thesis by blast
qed

theorem C9_one_chip_per_page_key_witness:
  "msg_citations
      (assistantMessage [cite Undefined None, cite (pageNo 4) None, cite Undefined None])
     = Some [cite Undefined None, cite (pageNo 4) None, cite Undefined None]
   \<and> length (filter (\<lambda>c. page c = Undefined)
               [cite Undefined None, cite (pageNo 4) None, cite Undefined None]) = 2
   \<and> length (filter (\<lambda>chip. page (fst chip) = Undefined)
        (renderCitations
           (assistantMessage [cite Undefined None, cite (pageNo 4) None, cite Undefined None])))
       = 1
   \<and> map (\<lambda>chip. getCitationText (fst chip) (snd chip))
        (renderCitations
           (assistantMessage [cite Undefined None, cite (pageNo 4) None, cite Undefined None]))
       = [SourceLabel 1, PageLabel (pageNo 4)]"
proof -
  let ?cs = "[cite Undefined None, cite (pageNo 4) None, cite Undefined None]"
  have a: "msg_citations (assistantMessage ?cs) = Some ?cs"
    by (simp add: assistantMessage_def)
  have b: "length (filter (\<lambda>c. page c = Undefined) ?cs) = 2" by (simp add: cite_def)
  have u: "uniqueCitations ?cs = [cite Undefined None, cite (pageNo 4) None]"
    by (simp add: uniqueCitations_def new_Map_def cite_def)
  have r: "renderCitations (assistantMessage ?cs)
             = [(cite Undefined None, 0), (cite (pageNo 4) None, 1)]"
    by (simp add: renderCitations_def a u upt_rec)
  have t: "map (\<lambda>chip. getCitationText (fst chip) (snd chip)) (renderCitations (assistantMessage ?cs))
       = [SourceLabel 1, PageLabel (pageNo 4)]"
    unfolding r by (simp add: getCitationText_def cite_def)
  from C9_one_chip_per_page_key [of Undefined "assistantMessage ?cs" ?cs] a b
  have "length (filter (\<lambda>chip. page (fst chip) = Undefined)
          (renderCitations (assistantMessage ?cs))) = 1"
    by simp
  with a b t show ?thesis by simp
qed

section \<open>Properties of citation extraction\<close>

lemma digit_not_space: "isDigit c \<Longrightarrow> \<not> isWhiteSpace c"
  by (auto simp: isDigit_def isWhiteSpace_def)

lemma close_not_digit: "\<not> isDigit CHR '')''"
  by (simp add: isDigit_def)

lemma pageWord_length: "pageWord w \<Longrightarrow> \<exists>c1 c2 c3 c4. w = [c1, c2, c3, c4]"
  by (induction w rule: pageWord.induct) simp_all

lemma matchAt_complete:
  assumes w: "pageWord w" and ws: "ws \<noteq> []" "\<forall>c \<in> set ws. isWhiteSpace c"
    and ds: "ds \<noteq> []" "\<forall>c \<in> set ds. isDigit c"
  shows "matchAt (CHR ''('' # w @ ws @ ds @ CHR '')'' # after) = Some (ds, after)"
proof -
  from w obtain c1 c2 c3 c4 where w4: "w = [c1, c2, c3, c4]"
    using pageWord_length by blast
  from ds obtain d ds' where dd: "ds = d # ds'" by (cases ds) auto
  with ds have nd: "\<not> isWhiteSpace d" by (simp add: digit_not_space)
  have tw: "takeWhile isWhiteSpace (ws @ ds @ CHR '')'' # after) = ws"
    using ws(2) nd by (simp add: dd)
  have dw: "dropWhile isWhiteSpace (ws @ ds @ CHR '')'' # after) = ds @ CHR '')'' # after"
    using ws(2) nd by (simp add: dd)
  have td: "takeWhile isDigit (ds @ CHR '')'' # after) = ds"
    using ds(2) close_not_digit by simp
  have dd': "dropWhile isDigit (ds @ CHR '')'' # after) = CHR '')'' # after"
    using ds(2) close_not_digit by simp
  show ?thesis
    using w ws(1) ds(1) unfolding w4
    by (simp add: tw dw td dd')
qed

lemma matchAt_sound:
  assumes "matchAt s = Some (ds, after)"
  shows "\<exists>m. s = m @ after \<and> pageReference ds m"
  using assms
proof (induction s rule: matchAt.induct)
  case (1 c0 c1 c2 c3 c4 rest)
  let ?ws = "takeWhile isWhiteSpace rest"
  let ?r1 = "dropWhile isWhiteSpace rest"
  from "1.prems" have c0: "c0 = CHR ''(''" and w: "pageWord [c1, c2, c3, c4]"
    and ws: "?ws \<noteq> []" and dsne: "takeWhile isDigit ?r1 \<noteq> []"
    by (auto split: if_splits)
  from "1.prems" have r2: "dropWhile isDigit ?r1 = CHR '')'' # after"
    and dseq: "ds = takeWhile isDigit ?r1"
    by (auto split: if_splits list.splits)
  have "rest = ?ws @ ?r1" by simp
  also have "?r1 = takeWhile isDigit ?r1 @ dropWhile isDigit ?r1" by simp
  finally have rest: "rest = ?ws @ ds @ '')'' @ after"
    by (simp add: r2 dseq [symmetric])
  have wsall: "\<forall>c \<in> set ?ws. isWhiteSpace c" by (auto dest: set_takeWhileD)
  have dsall: "\<forall>c \<in> set ds. isDigit c" unfolding dseq by (auto dest: set_takeWhileD)
  have "pageReference ds (''('' @ [c1, c2, c3, c4] @ ?ws @ ds @ '')'')"
    unfolding pageReference_def using w ws wsall dsne dsall dseq by blast
  moreover have "c0 # c1 # c2 # c3 # c4 # rest = (''('' @ [c1, c2, c3, c4] @ ?ws @ ds @ '')'') @ after"
    using rest c0 by simp
  ultimately show ?case by blast
qed simp_all

lemma matchAt_iff:
  "matchAt s = Some (ds, after) \<longleftrightarrow> (\<exists>m. s = m @ after \<and> pageReference ds m)"
  by (auto simp: pageReference_def matchAt_complete dest: matchAt_sound)

lemma open_not_space: "\<not> isWhiteSpace CHR ''(''"
  by (simp add: isWhiteSpace_def)

lemma open_not_digit: "\<not> isDigit CHR ''(''"
  by (simp add: isDigit_def)

lemma open_not_in_pageWord: "pageWord w \<Longrightarrow> CHR ''('' \<notin> set w"
  by (induction w rule: pageWord.induct) auto

lemma pageReference_shape:
  assumes "pageReference ds m"
  shows "\<exists>body. m = CHR ''('' # body \<and> CHR ''('' \<notin> set body"
proof -
  from assms obtain w ws where m: "m = ''('' @ w @ ws @ ds @ '')''" and w: "pageWord w"
    and ws: "\<forall>c \<in> set ws. isWhiteSpace c" and ds: "\<forall>c \<in> set ds. isDigit c"
    unfolding pageReference_def by blast
  have "CHR ''('' \<notin> set w" using w by (rule open_not_in_pageWord)
  moreover have "CHR ''('' \<notin> set ws" using ws open_not_space by blast
  moreover have "CHR ''('' \<notin> set ds" using ds open_not_digit by blast
  ultimately have "CHR ''('' \<notin> set (w @ ws @ ds @ '')'')" by simp
  with m show ?thesis by simp
qed


lemma pageReference_nonempty: "pageReference ds m \<Longrightarrow> m \<noteq> []"
  by (auto simp: pageReference_def)

text \<open>Two references in a text do not overlap: one that starts later starts after the end of the first.\<close>

lemma no_overlap:
  assumes eq: "m' @ after = pre @ m @ post" and m': "pageReference ds' m'"
    and m: "pageReference ds m" and pre: "pre \<noteq> []"
  shows "\<exists>pre''. pre = m' @ pre'' \<and> after = pre'' @ m @ post"
proof -
  from pageReference_shape [OF m'] obtain body'
    where b': "m' = CHR ''('' # body'" "CHR ''('' \<notin> set body'" by blast
  from pageReference_shape [OF m] obtain body
    where b: "m = CHR ''('' # body" by blast
  from eq have "m' @ after = pre @ (m @ post)" by simp
  then obtain us where
    "m' = pre @ us \<and> us @ after = m @ post \<or> m' @ us = pre \<and> after = us @ (m @ post)"
    unfolding append_eq_append_conv2 by blast
  then show ?thesis
  proof
    assume a: "m' = pre @ us \<and> us @ after = m @ post"
    show ?thesis
    proof (cases us)
      case Nil
      with a have "pre = m' @ [] \<and> after = [] @ m @ post" by simp
      then show ?thesis by blast
    next
      case (Cons u us')
      with a b have "u = CHR ''(''" by simp
      moreover from pre obtain p pre' where "pre = p # pre'" by (cases pre) auto
      with a Cons b' have "u \<in> set body'" by auto
      ultimately show ?thesis using b'(2) by simp
    qed
  next
    assume "m' @ us = pre \<and> after = us @ (m @ post)"
    then have "pre = m' @ us \<and> after = us @ m @ post" by simp
    then show ?thesis by blast
  qed
qed

lemma referenceAt_deterministic:
  assumes "referenceAt s i ds" and "referenceAt s i ds'"
  shows "ds = ds'"
proof -
  from assms(1) obtain pre m post where 1: "s = pre @ m @ post" "length pre = i" "pageReference ds m"
    unfolding referenceAt_def by blast
  from assms(2) obtain pre' m' post' where 2: "s = pre' @ m' @ post'" "length pre' = i" "pageReference ds' m'"
    unfolding referenceAt_def by blast
  from 1 2 have "pre = pre'" and eq: "m @ post = m' @ post'" by auto
  from 1(3) have "matchAt (m @ post) = Some (ds, post)" by (auto simp: matchAt_iff)
  moreover from 2(3) have "matchAt (m' @ post') = Some (ds', post')" by (auto simp: matchAt_iff)
  ultimately show ?thesis using eq by simp
qed

lemma referenceAt_Cons: "referenceAt cs i ds \<Longrightarrow> referenceAt (c # cs) (Suc i) ds"
proof -
  assume "referenceAt cs i ds"
  then obtain pre m post where "cs = pre @ m @ post" "length pre = i" "pageReference ds m"
    unfolding referenceAt_def by blast
  then have "c # cs = (c # pre) @ m @ post \<and> length (c # pre) = Suc i \<and> pageReference ds m"
    by simp
  then show ?thesis unfolding referenceAt_def by blast
qed

lemma referenceAt_append:
  "referenceAt after i ds \<Longrightarrow> referenceAt (m' @ after) (length m' + i) ds"
proof -
  assume "referenceAt after i ds"
  then obtain pre m post where "after = pre @ m @ post" "length pre = i" "pageReference ds m"
    unfolding referenceAt_def by blast
  then have "m' @ after = (m' @ pre) @ m @ post \<and> length (m' @ pre) = length m' + i
      \<and> pageReference ds m"
    by simp
  then show ?thesis unfolding referenceAt_def by blast
qed

lemma referenceAt_start: "pageReference ds m \<Longrightarrow> referenceAt (m @ post) 0 ds"
proof -
  assume "pageReference ds m"
  then have "m @ post = [] @ m @ post \<and> length ([] :: string) = 0 \<and> pageReference ds m" by simp
  then show ?thesis unfolding referenceAt_def by blast
qed

lemma lists_references_skip:
  assumes none: "matchAt (c # cs) = None" and ih: "lists_references cs ps dss"
  shows "lists_references (c # cs) (map Suc ps) dss"
proof -
  have complete: "i \<in> set (map Suc ps)" if r: "referenceAt (c # cs) i ds" for i ds
  proof -
    from r obtain pre m post where s: "c # cs = pre @ m @ post" and i: "length pre = i"
      and m: "pageReference ds m"
      unfolding referenceAt_def by blast
    show ?thesis
    proof (cases pre)
      case Nil
      with s m have "matchAt (c # cs) = Some (ds, post)" by (auto simp: matchAt_iff)
      with none show ?thesis by simp
    next
      case (Cons p pre')
      with s have "cs = pre' @ m @ post" by simp
      with m have "referenceAt cs (length pre') ds" unfolding referenceAt_def by blast
      with ih have "length pre' \<in> set ps" unfolding lists_references_def by blast
      with Cons i show ?thesis by auto
    qed
  qed
  have sound: "referenceAt (c # cs) (map Suc ps ! k) (dss ! k)" if "k < length (map Suc ps)" for k
  proof -
    from that have k: "k < length ps" by simp
    with ih have "referenceAt cs (ps ! k) (dss ! k)" unfolding lists_references_def by blast
    then have "referenceAt (c # cs) (Suc (ps ! k)) (dss ! k)" by (rule referenceAt_Cons)
    with k show ?thesis by simp
  qed
  have "sorted_wrt (<) (map Suc ps)"
    using ih unfolding lists_references_def by (simp add: sorted_wrt_map)
  moreover have "length (map Suc ps) = length dss"
    using ih unfolding lists_references_def by simp
  ultimately show ?thesis
    unfolding lists_references_def using complete sound by blast
qed

lemma lists_references_match:
  assumes found: "matchAt (c # cs) = Some (ds', after)" and ih: "lists_references after ps dss"
  shows "lists_references (c # cs) (0 # map (\<lambda>p. length (c # cs) - length after + p) ps) (ds' # dss)"
proof -
  from found obtain m' where s: "c # cs = m' @ after" and m': "pageReference ds' m'"
    using matchAt_sound by blast
  from s have len: "length (c # cs) - length after = length m'"
    by (metis add_diff_cancel_right' length_append)
  let ?ps = "0 # map (\<lambda>p. length m' + p) ps"
  have ne: "0 < length m'" using pageReference_nonempty [OF m'] by simp
  have complete: "i \<in> set ?ps" if r: "referenceAt (c # cs) i ds" for i ds
  proof -
    from r obtain pre m post where t: "c # cs = pre @ m @ post" and i: "length pre = i"
      and m: "pageReference ds m"
      unfolding referenceAt_def by blast
    show ?thesis
    proof (cases "pre = []")
      case True
      with i show ?thesis by simp
    next
      case False
      from s t have "m' @ after = pre @ m @ post" by simp
      from no_overlap [OF this m' m False] obtain pre''
        where p: "pre = m' @ pre''" "after = pre'' @ m @ post" by blast
      with m have "referenceAt after (length pre'') ds" unfolding referenceAt_def by blast
      with ih have "length pre'' \<in> set ps" unfolding lists_references_def by blast
      with p(1) i show ?thesis by auto
    qed
  qed
  have sound: "referenceAt (c # cs) (?ps ! k) ((ds' # dss) ! k)" if "k < length ?ps" for k
  proof (cases k)
    case 0
    from referenceAt_start [OF m', of after] s show ?thesis by (simp add: 0)
  next
    case (Suc j)
    with that have j: "j < length ps" by simp
    with ih have "referenceAt after (ps ! j) (dss ! j)" unfolding lists_references_def by blast
    then have "referenceAt (m' @ after) (length m' + ps ! j) (dss ! j)" by (rule referenceAt_append)
    with s j show ?thesis by (simp add: Suc)
  qed
  have "sorted_wrt (<) ps" using ih unfolding lists_references_def by blast
  then have "sorted_wrt (<) (map (\<lambda>p. length m' + p) ps)"
    by (simp add: sorted_wrt_map)
  with ne have sorted: "sorted_wrt (<) ?ps" by auto
  have "length ?ps = length (ds' # dss)"
    using ih unfolding lists_references_def by simp
  with sorted complete sound have "lists_references (c # cs) ?ps (ds' # dss)"
    unfolding lists_references_def by blast
  then show ?thesis by (simp only: len)
qed

lemma execAll_lists_references: "\<exists>ps. lists_references s ps (execAll s)"
proof (induction s rule: execAll.induct)
  case 1
  have "\<not> referenceAt [] i ds" for i ds
    by (auto simp: referenceAt_def dest: pageReference_nonempty)
  then have "lists_references [] [] (execAll [])"
    by (simp add: lists_references_def)
  then show ?case ..
next
  case (2 c cs)
  show ?case
  proof (cases "matchAt (c # cs)")
    case None
    from "2.IH"(1) [OF None] obtain ps where "lists_references cs ps (execAll cs)" ..
    from lists_references_skip [OF None this] None show ?thesis by auto
  next
    case (Some found)
    obtain ds' after where found: "found = (ds', after)" by (cases found)
    from Some found have ma: "matchAt (c # cs) = Some (ds', after)" by simp
    from "2.IH"(2) [OF Some found [symmetric]] obtain ps
      where "lists_references after ps (execAll after)" ..
    from lists_references_match [OF ma this] ma show ?thesis by auto
  qed
qed

lemma below_ten:
  "k < (10::nat) \<Longrightarrow> k = 0 \<or> k = 1 \<or> k = 2 \<or> k = 3 \<or> k = 4 \<or> k = 5 \<or> k = 6 \<or> k = 7 \<or> k = 8 \<or> k = 9"
  by presburger

lemma digitValue_digits:
  "digitValue CHR ''0'' = 0" "digitValue CHR ''1'' = 1" "digitValue CHR ''2'' = 2"
  "digitValue CHR ''3'' = 3" "digitValue CHR ''4'' = 4" "digitValue CHR ''5'' = 5"
  "digitValue CHR ''6'' = 6" "digitValue CHR ''7'' = 7" "digitValue CHR ''8'' = 8"
  "digitValue CHR ''9'' = 9"
  by (simp_all add: digitValue_def)

lemma digitValue_nth:
  assumes "k < 10" shows "digitValue (''0123456789'' ! k) = k"
  using below_ten [OF assms] by (elim disjE) (simp_all add: digitValue_digits)

lemma decimalValue_snoc: "decimalValue (ds @ [c]) = 10 * decimalValue ds + digitValue c"
  by (simp add: decimalValue_def)

lemma decimalValue_single: "decimalValue [c] = digitValue c"
  by (simp add: decimalValue_def)

lemma decimalValue_toString_nat: "decimalValue (toString_nat n) = n"
proof (induction n rule: toString_nat.induct)
  case (1 n)
  show ?case
  proof (cases "n < 10")
    case True
    then show ?thesis
      by (simp only: toString_nat_digit decimalValue_single digitValue_nth)
  next
    case False
    then have ge: "10 \<le> n" by simp
    have m: "n mod 10 < 10" by simp
    have "decimalValue (toString_nat n)
            = 10 * decimalValue (toString_nat (n div 10)) + digitValue (''0123456789'' ! (n mod 10))"
      by (simp only: toString_nat_more [OF ge] decimalValue_snoc)
    also have "\<dots> = 10 * (n div 10) + n mod 10"
      by (simp only: "1.IH" [OF False] digitValue_nth [OF m])
    also have "\<dots> = n" by simp
    finally show ?thesis .
  qed
qed

lemma toNumber_exact: "n \<le> 2 ^ 53 \<Longrightarrow> toNumber n = Finite (int n)"
  by (simp add: toNumber_def)

lemma parseInt_exact:
  "decimalValue ds \<le> 2 ^ 53 \<Longrightarrow> parseInt ds = Finite (int (decimalValue ds))"
  by (simp add: parseInt_def toNumber_exact)

lemma decimalValue_examples: "decimalValue ''5'' = 5" "decimalValue ''12'' = 12"
  by (simp_all add: decimalValue_def digitValue_digits)

lemma parseInt_examples: "parseInt ''5'' = Finite 5" "parseInt ''12'' = Finite 12"
  by (simp_all add: parseInt_exact decimalValue_examples)

lemma execAll_example: "execAll ''See (Page 5) and (page 12)'' = [''5'', ''12'']"
  by (simp add: isWhiteSpace_def isDigit_def)

lemma pageCitation_fields:
  "page (pageCitation ds) = Number (parseInt ds)"
  "cit_text (pageCitation ds) = Some (''Page '' @ ds)"
  "confidence (pageCitation ds) = Some (9 / 10)"
  "cit_type (pageCitation ds) = Some ''page_reference''"
  by (simp_all add: pageCitation_def)

lemma bitLength_0: "bitLength 0 = 0"
  by (subst bitLength.simps) simp

lemma bitLength_pos: "0 < n \<Longrightarrow> bitLength n = Suc (bitLength (n div 2))"
  by (subst bitLength.simps) simp

lemma bitLength_between: "2 ^ k \<le> n \<Longrightarrow> n < 2 ^ Suc k \<Longrightarrow> bitLength n = Suc k"
proof (induction k arbitrary: n)
  case 0
  then have "n = 1" by simp
  then show ?case by (simp add: bitLength_pos bitLength_0)
next
  case (Suc k)
  from Suc.prems have "2 ^ k \<le> n div 2" "n div 2 < 2 ^ Suc k" by auto
  then have "bitLength (n div 2) = Suc k" by (rule Suc.IH)
  moreover from Suc.prems have "0 < n" by (metis less_le_trans zero_less_numeral zero_less_power)
  ultimately show ?case by (simp add: bitLength_pos)
qed

lemma decimalValue_big: "decimalValue ''9007199254740993'' = 9007199254740993"
  by (simp add: decimalValue_def digitValue_digits)

lemma bitLength_big: "bitLength 9007199254740993 = 54"
proof -
  have "bitLength 9007199254740993 = Suc 53"
    by (rule bitLength_between) simp_all
  then show ?thesis by simp
qed

lemma parseInt_rounds: "parseInt ''9007199254740993'' = Finite 9007199254740992"
  by (simp add: parseInt_def decimalValue_big toNumber_def bitLength_big Let_def)

lemma execAll_big: "execAll ''(Page 9007199254740993)'' = [''9007199254740993'']"
  by (simp add: isWhiteSpace_def isDigit_def)

text \<open>
  C6 (as stated): every match \<open>(Page N)\<close> produces a citation with page = N.  The
  page is the Number that \<open>parseInt\<close> returns, and above \<open>2^53\<close> that is
  the nearest double: for \<open>(Page 9007199254740993)\<close> the page is 9007199254740992.
\<close>

theorem C6_page_rounded_above_2_53:
  "extractCitations ''(Page 9007199254740993)'' = [pageCitation ''9007199254740993'']
   \<and> decimalValue ''9007199254740993'' = 9007199254740993
   \<and> map page (extractCitations ''(Page 9007199254740993)'') = [pageNo 9007199254740992]"
proof -
  have ex: "extractCitations ''(Page 9007199254740993)'' = [pageCitation ''9007199254740993'']"
    by (simp only: extractCitations_def execAll_big list.map)
  have "map page (extractCitations ''(Page 9007199254740993)'') = [pageNo 9007199254740992]"
    by (simp only: ex list.map pageCitation_fields parseInt_rounds)
  with ex decimalValue_big show ?thesis by simp
qed

text \<open>
  C6 (amended): citation extraction scans the reply for the pattern \<open>(Page N)\<close>,
  case insensitively, and produces one citation for every match, in text order: the
  citations are those of the digits \<open>dss\<close> of the references of the text, listed
  by increasing index (a reference at a given index has one run of digits).  The
  citation of a match has type \<open>page_reference\<close>, confidence 0.9 and as page the
  Number that \<open>parseInt\<close> gives for the digits: N itself when N is at most
  \<open>2^53\<close> (the decimal text of \<open>n\<close> denotes \<open>n\<close>), the nearest double
  beyond.  On \<open>See (Page 5) and (page 12)\<close> it yields exactly two citations, with
  pages 5 and 12 in that order.
\<close>

theorem C6_citation_extraction:
  "(\<exists>ps dss. lists_references s ps dss \<and> extractCitations s = map pageCitation dss)
   \<and> (referenceAt s i ds1 \<and> referenceAt s i ds2 \<longrightarrow> ds1 = ds2)
   \<and> page (pageCitation ds) = Number (parseInt ds)
   \<and> cit_type (pageCitation ds) = Some ''page_reference''
   \<and> confidence (pageCitation ds) = Some (9 / 10)
   \<and> (decimalValue ds \<le> 2 ^ 53 \<longrightarrow> parseInt ds = Finite (int (decimalValue ds)))
   \<and> decimalValue (toString_nat n) = n
   \<and> extractCitations ''See (Page 5) and (page 12)'' = [pageCitation ''5'', pageCitation ''12'']
   \<and> map page (extractCitations ''See (Page 5) and (page 12)'') = [pageNo 5, pageNo 12]
   \<and> map cit_type (extractCitations ''See (Page 5) and (page 12)'')
       = [Some ''page_reference'', Some ''page_reference'']
   \<and> map confidence (extractCitations ''See (Page 5) and (page 12)'')
       = [Some (9 / 10), Some (9 / 10)]"
proof -
  from execAll_lists_references [of s] obtain ps where "lists_references s ps (execAll s)" ..
  then have "lists_references s ps (execAll s) \<and> extractCitations s = map pageCitation (execAll s)"
    by (simp add: extractCitations_def)
  then have scan: "\<exists>ps dss. lists_references s ps dss \<and> extractCitations s = map pageCitation dss"
    by blast
  have det: "ds1 = ds2" if "referenceAt s i ds1" "referenceAt s i ds2"
    using that by (rule referenceAt_deterministic)
  have ex: "extractCitations ''See (Page 5) and (page 12)'' = [pageCitation ''5'', pageCitation ''12'']"
    by (simp only: extractCitations_def execAll_example list.map)
  have ex1: "map page (extractCitations ''See (Page 5) and (page 12)'') = [pageNo 5, pageNo 12]"
    by (simp only: ex list.map pageCitation_fields parseInt_examples)
  have ex2: "map cit_type (extractCitations ''See (Page 5) and (page 12)'')
       = [Some ''page_reference'', Some ''page_reference'']"
    by (simp only: ex list.map pageCitation_fields)
  have ex3: "map confidence (extractCitations ''See (Page 5) and (page 12)'')
       = [Some (9 / 10), Some (9 / 10)]"
    by (simp only: ex list.map pageCitation_fields)
  from scan det pageCitation_fields(1,3,4) parseInt_exact decimalValue_toString_nat ex ex1 ex2 ex3
  show ?thesis by blast
qed

theorem C6_citation_extraction_witness:
  "referenceAt ''See (Page 5) and (page 12)'' 4 ''5''
   \<and> referenceAt ''See (Page 5) and (page 12)'' 17 ''12''
   \<and> (\<exists>ps dss. lists_references ''See (Page 5) and (page 12)'' ps dss
         \<and> extractCitations ''See (Page 5) and (page 12)'' = map pageCitation dss
         \<and> 4 \<in> set ps \<and> 17 \<in> set ps)
   \<and> decimalValue ''12'' = 12
   \<and> parseInt ''12'' = Finite 12
   \<and> page (pageCitation ''12'') = pageNo 12"
proof -
  let ?s = "''See (Page 5) and (page 12)''"
  have r5: "pageReference ''5'' ''(Page 5)''"
    unfolding pageReference_def
    by (rule exI [of _ "''Page''"], rule exI [of _ "'' ''"]) (simp add: isWhiteSpace_def isDigit_def)
  have r12: "pageReference ''12'' ''(page 12)''"
    unfolding pageReference_def
    by (rule exI [of _ "''page''"], rule exI [of _ "'' ''"]) (simp add: isWhiteSpace_def isDigit_def)
  have "?s = ''See '' @ ''(Page 5)'' @ '' and (page 12)'' \<and> length ''See '' = 4" by simp
  with r5 have at4: "referenceAt ?s 4 ''5''" unfolding referenceAt_def by blast
  have "?s = ''See (Page 5) and '' @ ''(page 12)'' @ [] \<and> length ''See (Page 5) and '' = 17" by simp
  with r12 have at17: "referenceAt ?s 17 ''12''" unfolding referenceAt_def by blast
  note inst = C6_citation_extraction [of ?s 17 "''12''" "''12''" "''12''" 12]
  from inst obtain ps dss where l: "lists_references ?s ps dss"
    and e: "extractCitations ?s = map pageCitation dss" by blast
  from l at4 at17 have "4 \<in> set ps" "17 \<in> set ps" unfolding lists_references_def by blast+
  with l e have scan: "\<exists>ps dss. lists_references ?s ps dss
         \<and> extractCitations ?s = map pageCitation dss \<and> 4 \<in> set ps \<and> 17 \<in> set ps" by blast
  have d: "decimalValue ''12'' = 12" by (rule decimalValue_examples)
  then have "decimalValue ''12'' \<le> 2 ^ 53" by simp
  with inst have "parseInt ''12'' = Finite (int (decimalValue ''12''))" by blast
  with d have p: "parseInt ''12'' = Finite 12" by simp
  from inst have "page (pageCitation ''12'') = Number (parseInt ''12'')" by blast
  with p have pg: "page (pageCitation ''12'') = pageNo 12" by simp
  from at4 at17 scan d p pg show ?thesis by blast
qed

end
